(* ===== verification/Prelude.thy ===== *)
theory Prelude
  imports Main
begin

text \<open>
  Shared vocabulary of the development: the error values the controller and the
  service manager return, the names of the model's types, the collection
  \<open>bus_defs\<close> of the D-Bus operation definitions the controller proofs unfold,
  and generic lemmas on lists, strings and maps used by several components.
\<close>

section \<open>Errors and type names\<close>

text \<open>
  Go's \<open>error\<close> values, made explicit. \<open>ConnectionError\<close> is a failure of
  \<open>systemdDbus.New\<close> (the service manager is unreachable); the others are replies
  of the service manager to a rejected method call; \<open>OtherError\<close> carries an
  error of a collaborator the model does not look into (mount discovery, the
  filesystem controllers).
\<close>

datatype error =
    ConnectionError
  | InvalidUnitName string
  | InvalidJobMode string
  | InvalidProperty string
  | UnitExists string
  | NoSuchUnit string
  | JobConflict string
  | OtherError string

text \<open>\<open>cgroups.Name\<close> is a Go string type naming a subsystem.\<close>

type_synonym Name = string

text \<open>
  A job path, a connection and a unit are identified by a number and a name. The
  result string of a finished job is one of systemd's job results
  (\<open>done\<close>, \<open>canceled\<close>, \<open>failed\<close>, ...).
\<close>

type_synonym job_id = nat
type_synonym conn_id = nat
type_synonym unit_name = string

named_theorems bus_defs "definitions of the D-Bus operations, unfolded by the controller proofs"

section \<open>Generic lemmas\<close>

lemma takeWhile_no_elem [simp]:
  "\<forall>x \<in> set xs. P x \<Longrightarrow> takeWhile P (xs @ ys) = xs @ takeWhile P ys"
  by (induction xs) auto

lemma dropWhile_no_elem [simp]:
  "\<forall>x \<in> set xs. P x \<Longrightarrow> dropWhile P (xs @ ys) = dropWhile P ys"
  by (induction xs) auto

lemma map_upd_same_dom:
  "m k = Some v \<Longrightarrow> dom (m(k \<mapsto> v')) = dom m"
  by auto

end
