(* ===== verification/CleanSpec.thy ===== *)
theory CleanSpec
  imports GoPath
begin

text \<open>
  A specification of \<open>filepath.Clean\<close> and the proof that the Go loop of
  \<open>GoPath\<close> implements it. The specification works on path elements: the fields
  between separators (\<open>path_fields\<close>, \<open>path_elems\<close>), a stack of kept elements
  updated by \<open>norm_step\<close> (\<open>..\<close> pops a real element, is kept in front of a
  relative path, is dropped at the root), and \<open>render\<close> joining the stack. The
  invariant \<open>stack_ok\<close> of the stack and the abstraction of the Go loop's
  state (buffer \<open>out = render rooted st\<close>, limit \<open>dotdot = dd_of rooted st\<close>)
  give the simulation \<open>clean_loop_refines\<close>, one case per branch of the Go
  \<open>switch\<close>. Consequences: \<open>Clean\<close> equals \<open>clean_spec\<close>, it is idempotent,
  and appending a plain element to a path appends it to the cleaned path.
\<close>

section \<open>An abstract normaliser\<close>

fun path_fields :: "string \<Rightarrow> string list" where
  "path_fields [] = [[]]"
| "path_fields (c # cs) =
     (if IsPathSeparator c then [] # path_fields cs
      else (c # hd (path_fields cs)) # tl (path_fields cs))"

definition path_elems :: "string \<Rightarrow> string list" where
  "path_elems p = filter (\<lambda>e. e \<noteq> [] \<and> e \<noteq> ''.'') (path_fields p)"

definition norm_step :: "bool \<Rightarrow> string list \<Rightarrow> string \<Rightarrow> string list" where
  "norm_step rooted st e =
     (if e = ''..'' then
        (case st of
           [] \<Rightarrow> if rooted then [] else [''..'']
         | x # st' \<Rightarrow> if x = ''..'' then ''..'' # st else st')
      else e # st)"

definition normalize :: "bool \<Rightarrow> string list \<Rightarrow> string list \<Rightarrow> string list" where
  "normalize rooted es st = fold (\<lambda>e st. norm_step rooted st e) es st"

definition render :: "bool \<Rightarrow> string list \<Rightarrow> string" where
  "render rooted st = (if rooted then ''/'' else []) @ strings_Join (rev st) ''/''"

definition clean_spec :: "string \<Rightarrow> string" where
  "clean_spec p =
     (if p = [] then ''.''
      else
        (let rooted = IsPathSeparator (hd p);
             out = render rooted (normalize rooted (path_elems p) [])
         in if out = [] then ''.'' else out))"

definition elem_ok :: "string \<Rightarrow> bool" where
  "elem_ok e \<longleftrightarrow> e \<noteq> [] \<and> e \<noteq> ''.'' \<and> CHR ''/'' \<notin> set e"

definition stack_ok :: "bool \<Rightarrow> string list \<Rightarrow> bool" where
  "stack_ok rooted st \<longleftrightarrow>
     list_all elem_ok st \<and>
     (if rooted then ''..'' \<notin> set st
      else list_all (\<lambda>e. e = ''..'') (dropWhile (\<lambda>e. e \<noteq> ''..'') st))"

definition dd_of :: "bool \<Rightarrow> string list \<Rightarrow> nat" where
  "dd_of rooted st =
     (if rooted then 1 else length (strings_Join (replicate (count_list st ''..'') ''..'') ''/''))"

section \<open>Backtracking\<close>

lemma backtrack_elem:
  assumes "CHR ''/'' \<notin> set ys" and "ys \<noteq> []" and "dd \<le> length xs"
  shows "backtrack dd (xs @ ys) =
           (if dd < length xs \<and> \<not> IsPathSeparator (hd ys) then backtrack dd xs else xs)"
  using assms
proof (induction ys rule: rev_induct)
  case Nil
  then show ?case by simp
next
  case (snoc c ys)
  have c: "\<not> IsPathSeparator c" using snoc.prems(1) by (auto simp: IsPathSeparator_def)
  show ?case
  proof (cases "ys = []")
    case True
    then show ?thesis
      using c by (simp add: backtrack.simps [of dd "xs @ [c]"] nth_append)
  next
    case False
    then have "dd < length (xs @ ys)" using snoc.prems(3) by (cases ys) auto
    then have "backtrack dd (xs @ ys @ [c]) = backtrack dd (xs @ ys)"
      using c by (simp add: backtrack.simps [of dd "xs @ ys @ [c]"] nth_append)
    with snoc.IH False snoc.prems show ?thesis by (simp add: hd_append)
  qed
qed

lemma backtrack_after_sep:
  assumes "CHR ''/'' \<notin> set e" and "e \<noteq> []" and "dd \<le> length xs"
  shows "backtrack dd (xs @ CHR ''/'' # e) = xs"
proof -
  have "hd e \<noteq> CHR ''/''" using assms(1,2) by (cases e) auto
  then have "backtrack dd ((xs @ ''/'') @ e) = backtrack dd (xs @ ''/'')"
    using backtrack_elem [of e dd "xs @ ''/''"] assms by (simp add: IsPathSeparator_def)
  also have "\<dots> = xs"
    by (simp add: backtrack.simps [of dd "xs @ ''/''"] IsPathSeparator_def)
  finally show ?thesis by simp
qed

lemma backtrack_at_limit:
  "CHR ''/'' \<notin> set e \<Longrightarrow> e \<noteq> [] \<Longrightarrow> backtrack (length xs) (xs @ e) = xs"
  using backtrack_elem [of e "length xs" xs] by simp

section \<open>Path elements\<close>

lemma IsPathSeparator_chars [simp]:
  "IsPathSeparator CHR ''/''" "\<not> IsPathSeparator CHR ''.''"
  by (simp_all add: IsPathSeparator_def)

lemma path_fields_nonempty [simp]: "path_fields p \<noteq> []"
  by (induction p) auto

lemma path_fields_elem:
  "\<forall>x \<in> set e. \<not> IsPathSeparator x \<Longrightarrow>
   path_fields (e @ rest) = (e @ hd (path_fields rest)) # tl (path_fields rest)"
  by (induction e) auto

lemma path_elems_Nil [simp]: "path_elems [] = []"
  by (simp add: path_elems_def)

lemma path_elems_sep: "IsPathSeparator c \<Longrightarrow> path_elems (c # rest) = path_elems rest"
  by (simp add: path_elems_def)

lemma path_elems_append_elem:
  assumes "\<forall>x \<in> set e. \<not> IsPathSeparator x" and "d = [] \<or> IsPathSeparator (hd d)"
  shows "path_elems (e @ d) = filter (\<lambda>e. e \<noteq> [] \<and> e \<noteq> ''.'') [e] @ path_elems d"
proof (cases d)
  case Nil
  then show ?thesis
    using path_fields_elem [OF assms(1), of "[]"] by (simp add: path_elems_def)
next
  case (Cons x r)
  with assms(2) have "IsPathSeparator x" by simp
  with Cons show ?thesis
    using path_fields_elem [OF assms(1), of d] by (simp add: path_elems_def)
qed

text \<open>An element is read up to the next separator.\<close>

lemma path_elems_elem:
  assumes "\<not> IsPathSeparator c"
  shows "path_elems (c # rest) =
           filter (\<lambda>e. e \<noteq> [] \<and> e \<noteq> ''.'') [c # takeWhile (\<lambda>x. \<not> IsPathSeparator x) rest] @
           path_elems (dropWhile (\<lambda>x. \<not> IsPathSeparator x) rest)"
proof -
  let ?t = "takeWhile (\<lambda>x. \<not> IsPathSeparator x) rest"
  let ?d = "dropWhile (\<lambda>x. \<not> IsPathSeparator x) rest"
  have "c # rest = (c # ?t) @ ?d" by simp
  moreover have "\<forall>x \<in> set (c # ?t). \<not> IsPathSeparator x"
    using assms by (auto dest: set_takeWhileD)
  moreover have "?d = [] \<or> IsPathSeparator (hd ?d)"
    using hd_dropWhile [of "\<lambda>x. \<not> IsPathSeparator x" rest] by auto
  ultimately show ?thesis
    by (metis path_elems_append_elem)
qed

lemma elem_end_takeWhile:
  "elem_end rest \<Longrightarrow> takeWhile (\<lambda>x. \<not> IsPathSeparator x) rest = []"
  by (cases rest) (auto simp: elem_end_def)

lemma elem_end_dropWhile:
  "elem_end rest \<Longrightarrow> dropWhile (\<lambda>x. \<not> IsPathSeparator x) rest = rest"
  by (cases rest) (auto simp: elem_end_def)

lemma path_elems_dot:
  "elem_end rest \<Longrightarrow> path_elems (CHR ''.'' # rest) = path_elems rest"
  using path_elems_elem [of "CHR ''.''" rest]
  by (simp add: elem_end_takeWhile elem_end_dropWhile)

lemma path_elems_dotdot:
  assumes "take 1 rest = ''.''" and "elem_end (drop 1 rest)"
  shows "path_elems (CHR ''.'' # rest) = ''..'' # path_elems (drop 1 rest)"
proof -
  obtain r where rest: "rest = CHR ''.'' # r" using assms(1) by (cases rest) auto
  then show ?thesis
    using path_elems_elem [of "CHR ''.''" rest] assms(2)
    by (simp add: elem_end_takeWhile elem_end_dropWhile)
qed

section \<open>Rendering a stack\<close>

lemma strings_Join_snoc:
  "strings_Join (xs @ [e]) sep = strings_Join xs sep @ (if xs = [] then [] else sep) @ e"
  by (induction xs sep rule: strings_Join.induct) auto

lemma strings_Join_append:
  "strings_Join (xs @ ys) sep =
     strings_Join xs sep @ (if xs = [] \<or> ys = [] then [] else sep) @ strings_Join ys sep"
  by (induction xs sep rule: strings_Join.induct) (auto simp: neq_Nil_conv)

lemma render_Cons:
  "render rooted (e # st) = render rooted st @ (if st = [] then [] else ''/'') @ e"
  by (simp add: render_def strings_Join_snoc)

lemma strings_Join_Nil_iff:
  "list_all (\<lambda>e. e \<noteq> []) xs \<Longrightarrow> strings_Join xs sep = [] \<longleftrightarrow> xs = []"
  by (induction xs sep rule: strings_Join.induct) auto

lemma render_Nil_iff:
  "list_all elem_ok st \<Longrightarrow> render rooted st = [] \<longleftrightarrow> \<not> rooted \<and> st = []"
  by (auto simp: render_def strings_Join_Nil_iff elem_ok_def list_all_iff)

lemma render_length_rooted:
  "list_all elem_ok st \<Longrightarrow> length (render True st) = 1 \<longleftrightarrow> st = []"
  by (auto simp: render_def strings_Join_Nil_iff elem_ok_def list_all_iff)

section \<open>The stack invariant\<close>

lemma count_list_replicate_same [simp]: "count_list (replicate k x) x = k"
  by (induction k) auto

lemma stack_ok_Cons_real:
  "stack_ok rooted st \<Longrightarrow> elem_ok e \<Longrightarrow> e \<noteq> ''..'' \<Longrightarrow> stack_ok rooted (e # st)"
  by (simp add: stack_ok_def)

lemma dd_of_Cons_real: "e \<noteq> ''..'' \<Longrightarrow> dd_of rooted (e # st) = dd_of rooted st"
  by (simp add: dd_of_def)

lemma list_all_dropWhile: "list_all P xs \<Longrightarrow> list_all P (dropWhile Q xs)"
  by (induction xs) auto

lemma list_all_takeWhile: "list_all P xs \<Longrightarrow> list_all P (takeWhile Q xs)"
  by (induction xs) auto

lemma stack_ok_tl:
  assumes "stack_ok rooted (x # st)"
  shows "stack_ok rooted st"
proof (cases rooted)
  case True
  with assms show ?thesis by (simp add: stack_ok_def)
next
  case False
  have "list_all (\<lambda>e. e = ''..'') (dropWhile (\<lambda>e. e \<noteq> ''..'') st)"
  proof (cases "x = ''..''")
    case True
    with assms False have "list_all (\<lambda>e. e = ''..'') st" by (simp add: stack_ok_def)
    then show ?thesis by (rule list_all_dropWhile)
  next
    case nd: False
    with assms False show ?thesis by (simp add: stack_ok_def)
  qed
  with assms False show ?thesis by (simp add: stack_ok_def)
qed

text \<open>A relative stack is its real elements on top of the kept \<open>..\<close> elements.\<close>

lemma stack_ok_relative:
  assumes "stack_ok False st"
  obtains reals k where "st = reals @ replicate k ''..''" and "''..'' \<notin> set reals"
    and "list_all elem_ok reals"
proof -
  let ?reals = "takeWhile (\<lambda>e. e \<noteq> ''..'') st"
  let ?dots = "dropWhile (\<lambda>e. e \<noteq> ''..'') st"
  have "list_all (\<lambda>e. e = ''..'') ?dots" using assms by (simp add: stack_ok_def)
  then have "\<forall>y \<in> set ?dots. y = ''..''" by (simp only: list_all_iff)
  then have rep: "replicate (length ?dots) ''..'' = ?dots" by (rule replicate_length_same)
  define k where "k = length ?dots"
  have dots: "?dots = replicate k ''..''" unfolding k_def by (rule rep [symmetric])
  have "st = ?reals @ ?dots" by simp
  then have "st = ?reals @ replicate k ''..''" by (simp only: dots)
  moreover have "''..'' \<notin> set ?reals" by (auto dest: set_takeWhileD)
  moreover have "list_all elem_ok ?reals"
    using assms list_all_takeWhile [of elem_ok st] by (simp add: stack_ok_def)
  ultimately show ?thesis using that by blast
qed

lemma dots_render:
  "render False (replicate k ''..'') = strings_Join (replicate k ''..'') ''/''"
  by (simp add: render_def)

lemma dd_of_relative:
  "''..'' \<notin> set reals \<Longrightarrow> dd_of False (reals @ replicate k ''..'') =
     length (strings_Join (replicate k ''..'') ''/'')"
  by (simp add: dd_of_def)

lemma render_relative:
  "render False (reals @ replicate k ''..'') =
     strings_Join (replicate k ''..'') ''/'' @
     (if k = 0 \<or> reals = [] then [] else ''/'') @ strings_Join (rev reals) ''/''"
  by (simp add: render_def strings_Join_append)

lemma relative_less_render:
  assumes "''..'' \<notin> set reals" and "list_all elem_ok reals"
  shows "dd_of False (reals @ replicate k ''..'') < length (render False (reals @ replicate k ''..''))
           \<longleftrightarrow> reals \<noteq> []"
proof -
  have "list_all (\<lambda>e. e \<noteq> []) (rev reals)"
    using assms(2) by (simp add: elem_ok_def list_all_iff)
  then have "strings_Join (rev reals) ''/'' = [] \<longleftrightarrow> reals = []"
    by (simp add: strings_Join_Nil_iff)
  with assms(1) show ?thesis by (simp add: dd_of_relative render_relative)
qed

lemma relative_hd:
  "''..'' \<notin> set reals \<Longrightarrow>
   reals \<noteq> [] \<longleftrightarrow> reals @ replicate k ''..'' \<noteq> [] \<and> hd (reals @ replicate k ''..'') \<noteq> ''..''"
  by (cases reals; cases k) auto
lemma rooted_hd_not_dotdot:
  assumes "stack_ok True st" and "st \<noteq> []"
  shows "hd st \<noteq> ''..''"
proof -
  have "hd st \<in> set st" using assms(2) by simp
  moreover have "''..'' \<notin> set st" using assms(1) by (simp add: stack_ok_def)
  ultimately show ?thesis by metis
qed

lemma dd_of_less_render_rooted:
  assumes "stack_ok True st"
  shows "dd_of True st < length (render True st) \<longleftrightarrow> st \<noteq> [] \<and> hd st \<noteq> ''..''"
proof -
  have "list_all elem_ok st" using assms by (simp add: stack_ok_def)
  then have "length (render True st) = 1 \<longleftrightarrow> st = []" by (rule render_length_rooted)
  moreover have "0 < length (render True st)" by (simp add: render_def)
  ultimately have len: "1 < length (render True st) \<longleftrightarrow> st \<noteq> []" by linarith
  have "st \<noteq> [] \<longleftrightarrow> st \<noteq> [] \<and> hd st \<noteq> ''..''"
    using rooted_hd_not_dotdot [OF assms] by blast
  with len show ?thesis by (simp add: dd_of_def)
qed
lemma dd_of_less_render_relative:
  assumes "stack_ok False st"
  shows "dd_of False st < length (render False st) \<longleftrightarrow> st \<noteq> [] \<and> hd st \<noteq> ''..''"
proof -
  obtain reals k where st: "st = reals @ replicate k ''..''" "''..'' \<notin> set reals"
      "list_all elem_ok reals"
    using assms by (rule stack_ok_relative)
  show ?thesis
    unfolding st(1) using relative_less_render [OF st(2,3), of k] relative_hd [OF st(2), of k] by blast
qed

lemma dd_of_less_render:
  assumes "stack_ok rooted st"
  shows "dd_of rooted st < length (render rooted st) \<longleftrightarrow> st \<noteq> [] \<and> hd st \<noteq> ''..''"
  using assms dd_of_less_render_rooted dd_of_less_render_relative by (cases rooted) simp_all

lemma dd_of_le_render:
  assumes "stack_ok rooted st"
  shows "dd_of rooted st \<le> length (render rooted st)"
proof (cases rooted)
  case True
  then show ?thesis by (simp add: dd_of_def render_def)
next
  case False
  from assms False have "stack_ok False st" by simp
  then obtain reals k where st: "st = reals @ replicate k ''..''" "''..'' \<notin> set reals"
    by (rule stack_ok_relative)
  have "dd_of False st = length (strings_Join (replicate k ''..'') ''/'')"
    unfolding st(1) by (rule dd_of_relative [OF st(2)])
  moreover have "render False st = strings_Join (replicate k ''..'') ''/'' @
     (if k = 0 \<or> reals = [] then [] else ''/'') @ strings_Join (rev reals) ''/''"
    unfolding st(1) by (rule render_relative)
  ultimately show ?thesis using False by simp
qed

section \<open>Steps of the loop\<close>

lemma render_backtrack:
  assumes "stack_ok rooted (x # st)" and "x \<noteq> ''..''"
  shows "backtrack (dd_of rooted (x # st)) (render rooted (x # st)) = render rooted st"
proof -
  have ok: "stack_ok rooted st" using assms(1) by (rule stack_ok_tl)
  have x: "CHR ''/'' \<notin> set x" "x \<noteq> []" using assms(1) by (simp_all add: stack_ok_def elem_ok_def)
  have dd: "dd_of rooted (x # st) = dd_of rooted st" using assms(2) by (rule dd_of_Cons_real)
  show ?thesis
  proof (cases "st = []")
    case True
    have "dd_of rooted [] = length (render rooted [])" by (simp add: dd_of_def render_def)
    with True dd x show ?thesis by (simp add: render_Cons backtrack_at_limit)
  next
    case False
    have "dd_of rooted st \<le> length (render rooted st)" using ok by (rule dd_of_le_render)
    with False dd x show ?thesis by (simp add: render_Cons backtrack_after_sep)
  qed
qed

lemma norm_step_pop:
  "st \<noteq> [] \<Longrightarrow> hd st \<noteq> ''..'' \<Longrightarrow> norm_step rooted st ''..'' = tl st"
  by (cases st) (auto simp: norm_step_def)

lemma relative_no_real_top:
  assumes "stack_ok False st" and "\<not> (st \<noteq> [] \<and> hd st \<noteq> ''..'')"
  shows "st = replicate (length st) ''..''"
proof -
  obtain reals k where st: "st = reals @ replicate k ''..''" "''..'' \<notin> set reals"
    using assms(1) by (rule stack_ok_relative)
  then have "reals = []" using assms(2) relative_hd [OF st(2), of k] by blast
  with st(1) show ?thesis by simp
qed

lemma render_push_dotdot:
  assumes "st = replicate k ''..''"
  shows "render False (''..'' # st) =
           (if 0 < length (render False st) then render False st @ ''/'' else render False st) @ ''..''
         \<and> dd_of False (''..'' # st) = length (render False (''..'' # st))
         \<and> stack_ok False (''..'' # st)
         \<and> norm_step False st ''..'' = ''..'' # st"
proof -
  have "render False st = [] \<longleftrightarrow> st = []"
    using assms by (cases k) (simp_all add: render_def strings_Join_snoc)
  moreover have "dd_of False (''..'' # st) = length (render False (''..'' # st))"
    using assms by (simp add: dd_of_def render_def replicate_append_same)
  moreover have "stack_ok False (''..'' # st)"
    using assms by (simp add: stack_ok_def elem_ok_def list_all_iff)
  moreover have "norm_step False st ''..'' = ''..'' # st"
    using assms by (cases k) (simp_all add: norm_step_def)
  ultimately show ?thesis by (auto simp: render_Cons)
qed

lemma rooted_no_real_top:
  assumes "stack_ok True st" and "\<not> (st \<noteq> [] \<and> hd st \<noteq> ''..'')"
  shows "st = []"
  using assms rooted_hd_not_dotdot by blast

lemma render_push_elem:
  assumes "stack_ok rooted st"
  shows "render rooted (e # st) =
           (if rooted \<and> length (render rooted st) \<noteq> 1 \<or> \<not> rooted \<and> length (render rooted st) \<noteq> 0
            then render rooted st @ ''/'' else render rooted st) @ e"
proof -
  have ok: "list_all elem_ok st" using assms by (simp add: stack_ok_def)
  have "(rooted \<and> length (render rooted st) \<noteq> 1 \<or> \<not> rooted \<and> length (render rooted st) \<noteq> 0) \<longleftrightarrow> st \<noteq> []"
    using render_length_rooted [OF ok] render_Nil_iff [OF ok, of False] by (cases rooted) auto
  then show ?thesis by (simp add: render_Cons)
qed

section \<open>Refinement\<close>

lemma normalize_Cons: "normalize rooted (e # es) st = normalize rooted es (norm_step rooted st e)"
  by (simp add: normalize_def)

lemma norm_step_real: "e \<noteq> ''..'' \<Longrightarrow> norm_step rooted st e = e # st"
  by (simp add: norm_step_def)

lemma clean_loop_refines:
  "stack_ok rooted st \<Longrightarrow> dd = dd_of rooted st \<Longrightarrow> out = render rooted st \<Longrightarrow>
   clean_loop rooted p dd out = render rooted (normalize rooted (path_elems p) st)"
proof (induction rooted p dd out arbitrary: st rule: clean_loop.induct)
  case (1 rooted dd out)
  then show ?case by (simp add: normalize_def)
next
  case (2 rooted c rest dd out)
  show ?case
  proof (cases "IsPathSeparator c")
    case True
    then show ?thesis using "2.IH"(1) [OF True "2.prems"] by (simp add: path_elems_sep)
  next
    case nsep: False
    show ?thesis
    proof (cases "c = CHR ''.'' \<and> elem_end rest")
      case dot: True
      then show ?thesis using "2.IH"(2) [OF nsep dot "2.prems"] nsep by (simp add: path_elems_dot)
    next
      case ndot: False
      show ?thesis
      proof (cases "c = CHR ''.'' \<and> take 1 rest = ''.'' \<and> elem_end (drop 1 rest)")
        case dotdot: True
        then have pe: "path_elems (c # rest) = ''..'' # path_elems (drop 1 rest)"
          by (simp add: path_elems_dotdot)
        show ?thesis
        proof (cases "dd < length out")
          case less: True
          then obtain x st' where st: "st = x # st'" "x \<noteq> ''..''"
            using "2.prems" dd_of_less_render [of rooted st] by (cases st) auto
          have ok': "stack_ok rooted st'" using "2.prems"(1) st(1) by (simp add: stack_ok_tl)
          have bt: "backtrack dd out = render rooted st'"
            using "2.prems" st render_backtrack by simp
          have dd': "dd = dd_of rooted st'" using "2.prems"(2) st by (simp add: dd_of_Cons_real)
          have "clean_loop rooted (c # rest) dd out = clean_loop rooted (drop 1 rest) dd (backtrack dd out)"
            using nsep ndot dotdot less by simp
          also have "\<dots> = render rooted (normalize rooted (path_elems (drop 1 rest)) st')"
            using "2.IH"(3) [OF nsep ndot dotdot less ok' dd' bt] .
          finally show ?thesis using pe st by (simp add: normalize_Cons norm_step_pop)
        next
          case nless: False
          then have top: "\<not> (st \<noteq> [] \<and> hd st \<noteq> ''..'')"
            using "2.prems" dd_of_less_render [of rooted st] by simp
          show ?thesis
          proof (cases rooted)
            case False
            let ?out' = "(if 0 < length out then out @ ''/'' else out) @ ''..''"
            have rel: "stack_ok False st" using "2.prems"(1) False by simp
            have st: "st = replicate (length st) ''..''" using rel top by (rule relative_no_real_top)
            note push = render_push_dotdot [OF st]
            have out': "?out' = render False (''..'' # st)"
              using push "2.prems"(3) False by simp
            have ih: "clean_loop rooted (drop 1 rest) (length ?out') ?out'
                  = render rooted (normalize rooted (path_elems (drop 1 rest)) (''..'' # st))"
            proof (rule "2.IH"(4) [OF nsep ndot dotdot nless False refl])
              show "stack_ok rooted (''..'' # st)" using push False by simp
              show "length ?out' = dd_of rooted (''..'' # st)" using push out' False by simp
              show "?out' = render rooted (''..'' # st)" using out' False by simp
            qed
            have "clean_loop rooted (c # rest) dd out = clean_loop rooted (drop 1 rest) (length ?out') ?out'"
              using nsep ndot dotdot nless False by (simp add: Let_def)
            also note ih

            finally show ?thesis using pe push False by (simp add: normalize_Cons)
          next
            case True
            have st: "st = []" using "2.prems"(1) True top rooted_no_real_top by simp
            have "clean_loop rooted (c # rest) dd out = clean_loop rooted (drop 1 rest) dd out"
              using nsep ndot dotdot nless True by simp
            also have "\<dots> = render rooted (normalize rooted (path_elems (drop 1 rest)) st)"
              using "2.IH"(5) [OF nsep ndot dotdot nless] True "2.prems" by simp
            finally show ?thesis using pe st True by (simp add: normalize_Cons norm_step_def)
          qed
        qed
      next
        case elem: False
        let ?t = "takeWhile (\<lambda>x. \<not> IsPathSeparator x) rest"
        let ?d = "dropWhile (\<lambda>x. \<not> IsPathSeparator x) rest"
        let ?e = "c # ?t"
        let ?out' = "if rooted \<and> length out \<noteq> 1 \<or> \<not> rooted \<and> length out \<noteq> 0 then out @ ''/'' else out"
        have e_ok: "elem_ok ?e" "?e \<noteq> ''..''"
          using nsep ndot elem
          by (auto simp: elem_ok_def elem_end_def IsPathSeparator_def dest: set_takeWhileD
                   split: list.splits)
        have pe: "path_elems (c # rest) = ?e # path_elems ?d"
          using path_elems_elem [OF nsep] e_ok(1) by (simp add: elem_ok_def)
        have ok': "stack_ok rooted (?e # st)" using "2.prems"(1) e_ok by (rule stack_ok_Cons_real)
        have dd': "dd = dd_of rooted (?e # st)" using "2.prems"(2) e_ok(2) by (simp add: dd_of_Cons_real)
        have out': "?out' @ ?e = render rooted (?e # st)"
          using render_push_elem [OF "2.prems"(1), of ?e] "2.prems"(3) by (cases rooted) simp_all
        have "clean_loop rooted (c # rest) dd out = clean_loop rooted ?d dd (?out' @ ?e)"
          by (simp only: clean_loop.simps(2) if_not_P [OF nsep] if_not_P [OF ndot]
                if_not_P [OF elem] Let_def)
        also have "\<dots> = render rooted (normalize rooted (path_elems ?d) (?e # st))"
          using "2.IH"(6) [OF nsep ndot elem refl ok' dd'] out' by simp
        finally show ?thesis using pe e_ok(2) by (simp add: normalize_Cons norm_step_real)
      qed
    qed
  qed
qed
lemma stack_ok_Nil [simp]: "stack_ok rooted []"
  by (simp add: stack_ok_def)

lemma Clean_clean_spec: "Clean p = clean_spec p"
proof (cases p)
  case Nil
  then show ?thesis by (simp add: Clean_def clean_spec_def)
next
  case (Cons c rest)
  show ?thesis
  proof (cases "IsPathSeparator c")
    case True
    have "clean_loop True rest 1 ''/'' = render True (normalize True (path_elems rest) [])"
      by (rule clean_loop_refines) (simp_all add: dd_of_def render_def)
    then show ?thesis using True Cons by (simp add: Clean_def clean_spec_def path_elems_sep)
  next
    case False
    have "clean_loop False p 0 [] = render False (normalize False (path_elems p) [])"
      by (rule clean_loop_refines) (simp_all add: dd_of_def render_def)
    then show ?thesis using False Cons by (simp add: Clean_def clean_spec_def)
  qed
qed

section \<open>Idempotence\<close>

lemma elem_ok_no_sep: "elem_ok e \<Longrightarrow> \<forall>x \<in> set e. \<not> IsPathSeparator x"
  by (auto simp: elem_ok_def IsPathSeparator_def)

lemma path_elems_Join:
  "list_all elem_ok es \<Longrightarrow> path_elems (strings_Join es ''/'') = es"
proof (induction es "''/''" rule: strings_Join.induct)
  case 1
  then show ?case by simp
next
  case (2 e)
  then show ?case
    using path_elems_append_elem [OF elem_ok_no_sep, of e "[]"] by (simp add: elem_ok_def)
next
  case (3 e v vs)
  then have "path_elems (e @ ''/'' @ strings_Join (v # vs) ''/'') =
             [e] @ path_elems (''/'' @ strings_Join (v # vs) ''/'')"
    using path_elems_append_elem [OF elem_ok_no_sep, of e] by (simp add: elem_ok_def)
  with 3 show ?case by (simp add: path_elems_sep)
qed

lemma path_elems_render:
  "list_all elem_ok st \<Longrightarrow> path_elems (render rooted st) = rev st"
  by (simp add: render_def path_elems_sep path_elems_Join)

lemma path_fields_no_sep: "e \<in> set (path_fields p) \<Longrightarrow> CHR ''/'' \<notin> set e"
proof (induction p arbitrary: e)
  case Nil
  then show ?case by simp
next
  case (Cons c cs)
  then show ?case
    using list.set_sel(1) [OF path_fields_nonempty, of cs] list.set_sel(2) [of "path_fields cs"]
    by (cases "path_fields cs") (auto simp: IsPathSeparator_def split: if_splits)
qed

lemma path_elems_ok: "list_all elem_ok (path_elems p)"
  by (auto simp: path_elems_def list_all_iff elem_ok_def dest: path_fields_no_sep)

lemma stack_ok_dotdot_Cons:
  "stack_ok False (''..'' # xs) \<Longrightarrow> list_all (\<lambda>e. e = ''..'') xs"
  by (simp add: stack_ok_def)

lemma norm_step_ok:
  assumes "stack_ok rooted st" and "elem_ok e"
  shows "stack_ok rooted (norm_step rooted st e)"
proof (cases "e = ''..''")
  case False
  then show ?thesis using assms by (simp add: norm_step_def stack_ok_Cons_real)
next
  case True
  show ?thesis
  proof (cases st)
    case Nil
    then show ?thesis using True by (simp add: norm_step_def stack_ok_def elem_ok_def)
  next
    case (Cons x st')
    have tl: "stack_ok rooted st'" using assms(1) Cons by (simp add: stack_ok_tl)
    show ?thesis
    proof (cases "x = ''..''")
      case False
      then show ?thesis using True Cons tl by (simp add: norm_step_def)
    next
      case dd: True
      then have "\<not> rooted" using assms(1) Cons by (auto simp: stack_ok_def)
      then show ?thesis using assms(1) True Cons dd
        by (simp add: norm_step_def stack_ok_def elem_ok_def)
    qed
  qed
qed

lemma normalize_ok:
  "stack_ok rooted st \<Longrightarrow> list_all elem_ok es \<Longrightarrow> stack_ok rooted (normalize rooted es st)"
  by (induction es arbitrary: st) (simp_all add: normalize_def norm_step_ok)
lemma norm_step_push:
  assumes "stack_ok rooted (x # ys)"
  shows "norm_step rooted ys x = x # ys"
proof (cases "x = ''..''")
  case False
  then show ?thesis by (simp add: norm_step_def)
next
  case True
  then have rel: "\<not> rooted" using assms by (cases rooted) (simp_all add: stack_ok_def)
  then have "list_all (\<lambda>e. e = ''..'') ys" using assms True by (simp add: stack_ok_dotdot_Cons)
  then show ?thesis using True rel by (cases ys) (simp_all add: norm_step_def)
qed

lemma normalize_rev:
  "stack_ok rooted (st @ acc) \<Longrightarrow> normalize rooted (rev st) acc = st @ acc"
proof (induction st arbitrary: acc)
  case Nil
  then show ?case by (simp add: normalize_def)
next
  case (Cons x st)
  have "stack_ok rooted (st @ acc)" using Cons.prems stack_ok_tl by fastforce
  then have "normalize rooted (rev st) acc = st @ acc" by (rule Cons.IH)
  then show ?case using norm_step_push [OF Cons.prems [simplified]] by (simp add: normalize_def)
qed

lemma strings_Join_Cons:
  "strings_Join (e # es) sep = e @ (if es = [] then [] else sep @ strings_Join es sep)"
  by (cases es) simp_all

lemma hd_render:
  assumes "list_all elem_ok st" and "render rooted st \<noteq> []"
  shows "IsPathSeparator (hd (render rooted st)) = rooted"
proof (cases rooted)
  case True
  then show ?thesis by (simp add: render_def)
next
  case False
  then obtain e es where st: "rev st = e # es" using assms(2) by (cases "rev st") (simp_all add: render_def)
  then have "elem_ok e" using assms(1) by (metis list.set_intros(1) list_all_iff set_rev)
  then show ?thesis using False st
    by (cases e) (auto simp: render_def strings_Join_Cons elem_ok_def IsPathSeparator_def)
qed

theorem clean_spec_idem: "clean_spec (clean_spec p) = clean_spec p"
proof (cases p)
  case Nil
  then show ?thesis by (simp add: clean_spec_def path_elems_def normalize_def render_def)
next
  case (Cons c rest)
  define r where "r = IsPathSeparator c"
  define st where "st = normalize r (path_elems p) []"
  have ok: "stack_ok r st" unfolding st_def by (simp add: normalize_ok path_elems_ok)
  then have all: "list_all elem_ok st" by (simp add: stack_ok_def)
  have cs: "clean_spec p = (if render r st = [] then ''.'' else render r st)"
    using Cons by (simp add: clean_spec_def r_def st_def Let_def)
  show ?thesis
  proof (cases "render r st = []")
    case True
    then show ?thesis using cs by (simp add: clean_spec_def path_elems_def normalize_def render_def)
  next
    case False
    have "normalize r (path_elems (render r st)) [] = st"
      using normalize_rev [of r st "[]"] ok by (simp add: path_elems_render [OF all])
    then show ?thesis using cs False hd_render [OF all False] by (simp add: clean_spec_def)
  qed
qed

section \<open>Appending an element\<close>

lemma path_fields_sep_append:
  "IsPathSeparator c \<Longrightarrow> path_fields (s @ c # t) = path_fields s @ path_fields t"
proof (induction s)
  case Nil
  then show ?case by simp
next
  case (Cons x s)
  then show ?case
    using path_fields_nonempty [of s] by (cases "path_fields s") auto
qed

lemma path_elems_sep_append:
  "IsPathSeparator c \<Longrightarrow> path_elems (s @ c # t) = path_elems s @ path_elems t"
  by (simp add: path_elems_def path_fields_sep_append)

lemma path_elems_single: "elem_ok e \<Longrightarrow> path_elems e = [e]"
  using path_elems_Join [of "[e]"] by simp

lemma render_not_dot: "list_all elem_ok st \<Longrightarrow> render rooted st \<noteq> ''.''"
proof (cases "rev st")
  case Nil
  then show ?thesis by (simp add: render_def)
next
  case (Cons e es)
  assume all: "list_all elem_ok st"
  then have "elem_ok e" using Cons by (metis list.set_intros(1) list_all_iff set_rev)
  then show ?thesis using Cons
    by (cases es; cases e) (auto simp: render_def elem_ok_def)
qed

lemma stack_ok_list_all: "stack_ok rooted st \<Longrightarrow> list_all elem_ok st"
  by (simp add: stack_ok_def)

lemma clean_spec_nonempty:
  "p \<noteq> [] \<Longrightarrow> clean_spec p =
     (let rooted = IsPathSeparator (hd p); st = normalize rooted (path_elems p) []
      in if \<not> rooted \<and> st = [] then ''.'' else render rooted st)"
  using render_Nil_iff [OF stack_ok_list_all [OF normalize_ok [OF stack_ok_Nil path_elems_ok]]]
  by (simp add: clean_spec_def Let_def)
lemma render_not_root:
  assumes "list_all elem_ok st" and "st \<noteq> []"
  shows "render rooted st \<noteq> ''/''"
proof
  assume eq: "render rooted st = ''/''"
  show False
  proof (cases rooted)
    case True
    then show False using eq render_length_rooted [OF assms(1)] assms(2) by simp
  next
    case False
    then show False using eq hd_render [OF assms(1), of rooted] by simp
  qed
qed

lemma clean_spec_append_elem:
  assumes "s \<noteq> []" and "elem_ok e" and "e \<noteq> ''..''"
  shows "clean_spec (s @ ''/'' @ e) =
           (if clean_spec s = ''.'' then e
            else if clean_spec s = ''/'' then ''/'' @ e
            else clean_spec s @ ''/'' @ e)"
proof -
  define r where "r = IsPathSeparator (hd s)"
  define st where "st = normalize r (path_elems s) []"
  have all: "list_all elem_ok st"
    unfolding st_def by (rule stack_ok_list_all [of r]) (intro normalize_ok stack_ok_Nil path_elems_ok)
  have elems: "path_elems (s @ ''/'' @ e) = path_elems s @ [e]"
    using path_elems_sep_append [of "CHR ''/''" s e] path_elems_single [OF assms(2)] by simp
  have st': "normalize r (path_elems (s @ ''/'' @ e)) [] = e # st"
    using assms(3) elems by (simp add: st_def normalize_def norm_step_def)
  have cs: "clean_spec s = (if \<not> r \<and> st = [] then ''.'' else render r st)"
    by (simp only: clean_spec_nonempty [OF assms(1)] Let_def r_def [symmetric] st_def [symmetric])
  have cse: "clean_spec (s @ ''/'' @ e) = render r (e # st)"
  proof -
    have ne: "s @ ''/'' @ e \<noteq> []" by simp
    have hd: "hd (s @ ''/'' @ e) = hd s" using assms(1) by simp
    show ?thesis
      by (simp only: clean_spec_nonempty [OF ne] Let_def hd r_def [symmetric] st') simp
  qed
  show ?thesis
  proof (cases "st = []")
    case True
    then show ?thesis using cs cse by (cases r) (simp_all add: render_def)
  next
    case False
    then show ?thesis using cs cse render_not_dot [OF all] render_not_root [OF all False]
      by (simp add: render_Cons)
  qed
qed

lemma Clean_append_elem:
  assumes "s \<noteq> []" and "elem_ok e" and "e \<noteq> ''..''"
  shows "Clean (s @ ''/'' @ e) =
           (if Clean s = ''.'' then e else if Clean s = ''/'' then ''/'' @ e else Clean s @ ''/'' @ e)"
  using clean_spec_append_elem [OF assms] by (simp only: Clean_clean_spec)

lemma Clean_idempotent: "Clean (Clean p) = Clean p"
  by (simp only: Clean_clean_spec clean_spec_idem)

end
