(* ===== verification/Naming.thy ===== *)
theory Naming
  imports CleanSpec
begin

text \<open>
  The naming translator of \<open>systemd.go\<close>: the constants \<open>SystemdDbus\<close> and
  \<open>defaultSlice\<close>, the path generator \<open>Slice\<close>, and the helpers \<open>unitName\<close>
  and \<open>splitName\<close>. A \<open>cgroups.Path\<close> is a Go function from a subsystem name to a
  path or an error; here a HOL function into \<open>error + string\<close>. The
  properties of \<open>Slice\<close> rest on the specification of \<open>filepath.Clean\<close> in
  \<open>CleanSpec\<close>.
\<close>

section \<open>Definitions\<close>

definition SystemdDbus :: Name where
  "SystemdDbus = ''systemd''"

definition defaultSlice :: string where
  "defaultSlice = ''system.slice''"

type_synonym Path = "Name \<Rightarrow> error + string"

definition unitName :: "string \<Rightarrow> string" where
  "unitName name = name @ ''.slice''"

definition Slice :: "string \<Rightarrow> string \<Rightarrow> Path" where
  "Slice slice name =
     (let slice = (if slice = [] then defaultSlice else slice)
      in (\<lambda>subsystem. Inr (filepath_Join [slice, unitName name])))"

definition splitName :: "string \<Rightarrow> string \<times> string" where
  "splitName path = (let (slice, unit) = Split path in (TrimSuffix slice ''/'', unit))"

section \<open>Properties\<close>

text \<open>
  C10. A path of the form \<open>parent/name\<close>, with no separator in \<open>name\<close>, is split by
  \<open>splitName\<close> into the parent group \<open>parent\<close> and the unit \<open>name\<close>; the trailing
  separator of the directory part is removed.
\<close>

theorem splitName_group_name:
  assumes "CHR ''/'' \<notin> set name"
  shows "splitName (parent @ ''/'' @ name) = (parent, name)"
proof -
  have "Split ((parent @ ''/'') @ name) = (parent @ ''/'', name)"
    using assms by (intro Split_append) simp_all
  then show ?thesis by (simp add: splitName_def)
qed

theorem splitName_group_name_witness:
  "CHR ''/'' \<notin> set ''mycontainer.slice'' \<and>
   splitName (''mygroup'' @ ''/'' @ ''mycontainer.slice'') = (''mygroup'', ''mycontainer.slice'')"
  using splitName_group_name [of "''mycontainer.slice''" "''mygroup''"] by simp

text \<open>
  C11. A path with no separator gives an empty parent group and the whole path as
  the unit; \<open>splitName\<close> does not substitute the default slice.
\<close>

theorem splitName_no_separator:
  assumes "CHR ''/'' \<notin> set path"
  shows "splitName path = ([], path)"
proof -
  have "Split ([] @ path) = ([], path)"
    using assms by (intro Split_append) simp_all
  then show ?thesis by (simp add: splitName_def TrimSuffix_def HasSuffix_def)
qed

theorem splitName_no_separator_witness:
  "CHR ''/'' \<notin> set ''mycontainer'' \<and> splitName ''mycontainer'' = ([], ''mycontainer'')"
  using splitName_no_separator [of "''mycontainer''"] by simp

text \<open>
  C15. \<open>splitName\<close> on any path: the unit has no separator and the path is the
  directory part followed by the unit, the directory part being empty or ending in
  a separator, and the parent group is that directory part with one trailing
  separator removed.
\<close>

theorem splitName_spec:
  assumes "splitName path = (slice, unit)"
  shows "CHR ''/'' \<notin> set unit \<and>
         (\<exists>d. path = d @ unit \<and> slice = TrimSuffix d ''/'' \<and> (d = [] \<or> last d = CHR ''/''))"
  using assms Split_spec [of path] by (auto simp: splitName_def split: prod.splits)

theorem splitName_spec_witness:
  "splitName ''a//b'' = (''a/'', ''b'') \<and>
   CHR ''/'' \<notin> set ''b'' \<and>
   (\<exists>d. ''a//b'' = d @ ''b'' \<and> ''a/'' = TrimSuffix d ''/'' \<and> (d = [] \<or> last d = CHR ''/''))"
proof -
  have eq: "splitName ''a//b'' = (''a/'', ''b'')"
    by (simp add: splitName_def Split_def TrimSuffix_def HasSuffix_def IsPathSeparator_def)
  show ?thesis using eq splitName_spec [OF eq] by simp
qed

text \<open>
  C12. \<open>unitName\<close> appends the suffix \<open>.slice\<close>, and trimming that suffix gives
  the base name back, for every base name (one already ending in \<open>.slice\<close> is
  suffixed a second time).
\<close>

theorem unitName_roundtrip:
  "HasSuffix (unitName name) ''.slice'' \<and> TrimSuffix (unitName name) ''.slice'' = name"
  by (simp add: unitName_def)

lemma unitName_elem_ok:
  "CHR ''/'' \<notin> set name \<Longrightarrow> elem_ok (unitName name) \<and> unitName name \<noteq> ''..''"
  by (auto simp: unitName_def elem_ok_def)

lemma Slice_Clean:
  "Slice slice name subsystem =
     Inr (Clean ((if slice = [] then defaultSlice else slice) @ ''/'' @ unitName name))"
  by (simp add: Slice_def defaultSlice_def Let_def)

lemma Clean_defaultSlice: "Clean defaultSlice = defaultSlice"
  by (simp add: defaultSlice_def Clean_def IsPathSeparator_def elem_end_def)

text \<open>
  C17. \<open>Slice\<close> refines the path specification: for every parent slice, name
  and subsystem, the generated path is the lexical normal form \<open>clean_spec\<close> of
  \<open>parent/name.slice\<close>, the parent being \<open>system.slice\<close> when empty; the
  Go \<open>filepath.Join\<close> and \<open>filepath.Clean\<close> loop it calls computes exactly that.
\<close>

theorem Slice_refines:
  "Slice slice name subsystem =
     Inr (clean_spec ((if slice = [] then defaultSlice else slice) @ ''/'' @ unitName name))"
  by (simp only: Slice_Clean Clean_clean_spec)

text \<open>
  C18. \<open>Slice\<close> never fails and always returns a clean path: cleaning it again
  changes nothing.
\<close>

theorem Slice_clean:
  "\<exists>p. Slice slice name subsystem = Inr p \<and> Clean p = p"
  by (simp add: Slice_Clean Clean_idempotent)

text \<open>
  C19. For a name without separator, the path generator \<open>Slice\<close> returns the
  cleaned parent slice (the default \<open>system.slice\<close> for an empty one) followed by
  the unit \<open>name.slice\<close>, for every subsystem; a parent that cleans to \<open>.\<close>
  disappears and the root keeps its single separator.
\<close>

theorem Slice_path:
  assumes "CHR ''/'' \<notin> set name"
  shows "Slice slice name subsystem =
           Inr (let s = Clean (if slice = [] then defaultSlice else slice)
                in (if s = ''.'' then [] else if s = ''/'' then ''/'' else s @ ''/'') @ unitName name)"
proof -
  have "(if slice = [] then defaultSlice else slice) \<noteq> []" by (simp add: defaultSlice_def)
  then show ?thesis
    using Clean_append_elem [of _ "unitName name"] unitName_elem_ok [OF assms]
    by (simp add: Slice_Clean Let_def)
qed

theorem Slice_path_witness:
  "CHR ''/'' \<notin> set ''web'' \<and>
   Slice ''machine.slice'' ''web'' ''memory'' =
     Inr (let s = Clean (if ''machine.slice'' = [] then defaultSlice else ''machine.slice'')
          in (if s = ''.'' then [] else if s = ''/'' then ''/'' else s @ ''/'') @ unitName ''web'')"
  using Slice_path [of "''web''" "''machine.slice''" "''memory''"] by simp

text \<open>
  C20. With an empty parent, \<open>Slice\<close> places the unit under the default slice:
  the path is \<open>system.slice/name.slice\<close>, and \<open>splitName\<close> recovers
  \<open>system.slice\<close> and \<open>name.slice\<close> from it.
\<close>

theorem Slice_default:
  assumes "CHR ''/'' \<notin> set name"
  shows "Slice [] name subsystem = Inr (''system.slice/'' @ name @ ''.slice'') \<and>
         splitName (''system.slice/'' @ name @ ''.slice'') = (''system.slice'', name @ ''.slice'')"
proof
  show "Slice [] name subsystem = Inr (''system.slice/'' @ name @ ''.slice'')"
  proof -
    have ne: "defaultSlice \<noteq> []" by (simp add: defaultSlice_def)
    have "Clean (defaultSlice @ ''/'' @ unitName name) = defaultSlice @ ''/'' @ unitName name"
      using Clean_append_elem [OF ne, of "unitName name"] unitName_elem_ok [OF assms]
      unfolding Clean_defaultSlice by (simp add: defaultSlice_def)
    then show ?thesis by (simp add: Slice_Clean defaultSlice_def unitName_def)
  qed
  have "Split (''system.slice/'' @ (name @ ''.slice'')) = (''system.slice/'', name @ ''.slice'')"
    using assms by (intro Split_append) simp_all
  then show "splitName (''system.slice/'' @ name @ ''.slice'') = (''system.slice'', name @ ''.slice'')"
    by (simp add: splitName_def TrimSuffix_def HasSuffix_def)
qed

theorem Slice_default_witness:
  "CHR ''/'' \<notin> set ''web'' \<and>
   Slice [] ''web'' ''cpu'' = Inr (''system.slice/'' @ ''web'' @ ''.slice'') \<and>
   splitName (''system.slice/'' @ ''web'' @ ''.slice'') = (''system.slice'', ''web'' @ ''.slice'')"
  using Slice_default [of "''web''" "''cpu''"] by simp

text \<open>
  C21. Round trip of the naming scheme: for a clean parent slice other than
  \<open>.\<close> and \<open>/\<close> and a name without separator, \<open>splitName\<close> applied to the path
  \<open>Slice\<close> generates gives back the parent and the unit \<open>name.slice\<close>.
\<close>

theorem splitName_Slice:
  assumes "CHR ''/'' \<notin> set name" and "Clean slice = slice" and "slice \<noteq> ''.''" and "slice \<noteq> ''/''"
    and "Slice slice name subsystem = Inr path"
  shows "splitName path = (slice, unitName name)"
proof -
  have ne: "slice \<noteq> []" using assms(2) by (auto simp: Clean_def)
  have "path = slice @ ''/'' @ unitName name"
    using assms Clean_append_elem [OF ne, of "unitName name"] unitName_elem_ok [OF assms(1)] ne
    by (simp add: Slice_Clean)
  moreover have "Split ((slice @ ''/'') @ unitName name) = (slice @ ''/'', unitName name)"
    using assms(1) by (intro Split_append) (simp_all add: unitName_def)
  ultimately show ?thesis by (simp add: splitName_def)
qed

theorem splitName_Slice_witness:
  "CHR ''/'' \<notin> set ''web'' \<and> Clean ''machine.slice'' = ''machine.slice'' \<and>
   ''machine.slice'' \<noteq> ''.'' \<and> ''machine.slice'' \<noteq> ''/'' \<and>
   Slice ''machine.slice'' ''web'' ''memory'' = Inr ''machine.slice/web.slice'' \<and>
   splitName ''machine.slice/web.slice'' = (''machine.slice'', unitName ''web'')"
proof -
  have c: "Clean ''machine.slice'' = ''machine.slice''"
    by (simp add: Clean_def IsPathSeparator_def elem_end_def)
  have s: "Slice ''machine.slice'' ''web'' ''memory'' = Inr ''machine.slice/web.slice''"
    by (simp add: Slice_Clean unitName_def Clean_def IsPathSeparator_def elem_end_def)
  show ?thesis
    using c s splitName_Slice [of "''web''" "''machine.slice''" "''memory''" "''machine.slice/web.slice''"]
    by simp
qed

end
