(* ===== verification/Bus.thy ===== *)
theory Bus
  imports GoPath
begin

text \<open>
  The control channel the controller uses: a connection of go-systemd's \<open>dbus\<close>
  package to the systemd service manager. It is not part of the repository's
  sources; it is modelled from the interface the spec describes (method calls
  \<open>StartTransientUnit\<close> and \<open>StopUnit\<close> that return a job and register a channel,
  one completion value per accepted job) with systemd's documented replies.

  The state \<open>bus\<close> holds the manager (loaded units, the FIFO queue of pending
  jobs, the job counter, the units whose start jobs will fail), the open
  connections with the job listeners each registered (a listener is waiting,
  \<open>None\<close>, or holds the delivered result), and the log \<open>calls\<close> of what the
  clients did: connecting, the two method calls, receiving on a channel,
  closing. Every operation returns its Go result and the new state.
\<close>

section \<open>Properties and units\<close>

text \<open>\<open>dbus.Variant\<close> values the controller sends.\<close>

datatype variant = VBool bool | VString string | VStrings "string list"

record Property =
  prop_name :: string
  prop_value :: variant

definition PropDescription :: "string \<Rightarrow> Property" where
  "PropDescription desc = \<lparr>prop_name = ''Description'', prop_value = VString desc\<rparr>"

definition PropWants :: "string list \<Rightarrow> Property" where
  "PropWants units = \<lparr>prop_name = ''Wants'', prop_value = VStrings units\<rparr>"

definition unit_suffixes :: "string list" where
  "unit_suffixes = [''.service'', ''.socket'', ''.target'', ''.device'', ''.mount'',
     ''.automount'', ''.swap'', ''.timer'', ''.path'', ''.slice'', ''.scope'']"

text \<open>
  systemd accepts a unit name when it has a unit-type suffix after a non-empty
  prefix and no slash.
\<close>

definition valid_unit_name :: "string \<Rightarrow> bool" where
  "valid_unit_name n \<longleftrightarrow>
     CHR ''/'' \<notin> set n \<and> list_ex (\<lambda>t. HasSuffix n t \<and> length t < length n) unit_suffixes"

text \<open>
  D-Bus signatures of property values (\<open>b\<close>, \<open>s\<close>, \<open>as\<close>) and the typing of a
  variant; systemd's table of the unit properties the controller sets, with the
  signature each expects. A property of another name, or whose value has another
  signature, is refused.
\<close>

datatype dbus_sig = SigBool | SigString | SigArray dbus_sig

inductive variant_has_sig :: "variant \<Rightarrow> dbus_sig \<Rightarrow> bool" where
  sig_bool: "variant_has_sig (VBool v) SigBool"
| sig_string: "variant_has_sig (VString s) SigString"
| sig_strings: "variant_has_sig (VStrings ss) (SigArray SigString)"

code_pred (expected_modes: i => i => bool, i => o => bool) variant_has_sig .

definition unit_property_sig :: "string \<Rightarrow> dbus_sig option" where
  "unit_property_sig n =
     (if n = ''Description'' then Some SigString
      else if n = ''Wants'' then Some (SigArray SigString)
      else if n \<in> {''DefaultDependencies'', ''Delegate'', ''MemoryAccounting'', ''CPUAccounting'',
                    ''BlockIOAccounting''} then Some SigBool
      else None)"

definition property_well_typed :: "Property \<Rightarrow> bool" where
  "property_well_typed p \<longleftrightarrow>
     (case unit_property_sig (prop_name p) of
        Some sg \<Rightarrow> variant_has_sig (prop_value p) sg
      | None \<Rightarrow> False)"

definition valid_property :: "Property \<Rightarrow> bool" where
  "valid_property p \<longleftrightarrow>
     property_well_typed p \<and>
     (case prop_value p of
        VStrings us \<Rightarrow> prop_name p \<noteq> ''Wants'' \<or> list_all valid_unit_name us
      | _ \<Rightarrow> True)"

definition valid_job_mode :: "string \<Rightarrow> bool" where
  "valid_job_mode m \<longleftrightarrow> m = ''replace'' \<or> m = ''fail''"

record unit_state =
  unit_props :: "Property list"
  unit_active :: bool

datatype job_type = JobStart | JobStop

record job =
  job_num :: job_id
  job_unit :: unit_name
  job_kind :: job_type

text \<open>What a client does on the bus, in the order it does it.\<close>

datatype event =
    EvConnect conn_id
  | EvStartTransientUnit conn_id unit_name string "Property list"
  | EvStopUnit conn_id unit_name string
  | EvRecv conn_id job_id string
  | EvClose conn_id

type_synonym listeners = "job_id \<rightharpoonup> string option"

record bus =
  bus_up :: bool
  units :: "unit_name \<rightharpoonup> unit_state"
  queue :: "job list"
  next_job :: job_id
  failing :: "unit_name list"
  conns :: "conn_id \<rightharpoonup> listeners"
  next_conn :: conn_id
  calls :: "event list"

text \<open>A freshly started manager: reachable, nothing loaded, nothing queued.\<close>

definition bus_init :: "unit_name list \<Rightarrow> bus" where
  "bus_init fails =
     \<lparr>bus_up = True, units = Map.empty, queue = [], next_job = 0, failing = fails,
      conns = Map.empty, next_conn = 0, calls = []\<rparr>"

section \<open>Connections and jobs\<close>

text \<open>\<open>systemdDbus.New()\<close>: a fresh connection, or an error when systemd is down.\<close>

definition dbus_New :: "bus \<Rightarrow> (error + conn_id) \<times> bus" where
  "dbus_New b =
     (if bus_up b then
        (let c = next_conn b
         in (Inr c, b\<lparr>conns := (conns b)(c \<mapsto> Map.empty), next_conn := Suc c,
                      calls := calls b @ [EvConnect c]\<rparr>))
      else (Inl ConnectionError, b))"

text \<open>A finished job's result goes to the channel registered for it, if any.\<close>

definition deliver :: "job_id \<Rightarrow> string \<Rightarrow> (conn_id \<rightharpoonup> listeners) \<Rightarrow> (conn_id \<rightharpoonup> listeners)" where
  "deliver j r cs =
     (\<lambda>c. map_option (\<lambda>l. if l j = Some None then l(j \<mapsto> Some r) else l) (cs c))"

definition register :: "conn_id \<Rightarrow> job_id \<Rightarrow> (conn_id \<rightharpoonup> listeners) \<Rightarrow> (conn_id \<rightharpoonup> listeners)" where
  "register c j cs = cs(c := map_option (\<lambda>l. l(j \<mapsto> None)) (cs c))"

text \<open>Mode \<open>replace\<close>: pending jobs of the same unit are canceled.\<close>

definition cancel_jobs :: "unit_name \<Rightarrow> job list \<Rightarrow> (conn_id \<rightharpoonup> listeners) \<Rightarrow> (conn_id \<rightharpoonup> listeners)" where
  "cancel_jobs name q cs =
     fold (\<lambda>j. deliver (job_num j) ''canceled'') (filter (\<lambda>j. job_unit j = name) q) cs"

definition enqueue_job :: "conn_id \<Rightarrow> unit_name \<Rightarrow> job_type \<Rightarrow> string \<Rightarrow> bus \<Rightarrow> (error + job_id) \<times> bus" where
  "enqueue_job c name kind mode b =
     (if mode = ''fail'' \<and> (\<exists>j \<in> set (queue b). job_unit j = name) then (Inl (JobConflict name), b)
      else
        (let j = next_job b
         in (Inr j, b\<lparr>queue := filter (\<lambda>x. job_unit x \<noteq> name) (queue b) @
                             [\<lparr>job_num = j, job_unit = name, job_kind = kind\<rparr>],
                     next_job := Suc j,
                     conns := register c j (cancel_jobs name (queue b) (conns b))\<rparr>)))"

definition StartTransientUnit ::
  "conn_id \<Rightarrow> unit_name \<Rightarrow> string \<Rightarrow> Property list \<Rightarrow> bus \<Rightarrow> (error + job_id) \<times> bus" where
  "StartTransientUnit c name mode properties b =
     (let b = b\<lparr>calls := calls b @ [EvStartTransientUnit c name mode properties]\<rparr>
      in if \<not> valid_job_mode mode then (Inl (InvalidJobMode mode), b)
      else if \<not> valid_unit_name name then (Inl (InvalidUnitName name), b)
      else if units b name \<noteq> None then (Inl (UnitExists name), b)
      else if \<not> list_all valid_property properties then (Inl (InvalidProperty name), b)
      else (case enqueue_job c name JobStart mode b of
              (Inl e, b') \<Rightarrow> (Inl e, b')
            | (Inr j, b') \<Rightarrow>
                (Inr j, b'\<lparr>units := (units b')(name \<mapsto> \<lparr>unit_props = properties, unit_active = False\<rparr>)\<rparr>)))"

definition StopUnit :: "conn_id \<Rightarrow> unit_name \<Rightarrow> string \<Rightarrow> bus \<Rightarrow> (error + job_id) \<times> bus" where
  "StopUnit c name mode b =
     (let b = b\<lparr>calls := calls b @ [EvStopUnit c name mode]\<rparr>
      in if \<not> valid_job_mode mode then (Inl (InvalidJobMode mode), b)
      else if \<not> valid_unit_name name then (Inl (InvalidUnitName name), b)
      else if units b name = None then (Inl (NoSuchUnit name), b)
      else enqueue_job c name JobStop mode b)"

text \<open>
  The manager runs the job at the head of the queue: a start job activates its
  unit (or fails and the transient unit is unloaded), a stop job unloads it. The
  result is delivered to the job's listener.
\<close>

definition job_outcome :: "bus \<Rightarrow> job \<Rightarrow> string \<times> (unit_name \<rightharpoonup> unit_state)" where
  "job_outcome b j =
     (let name = job_unit j
      in case job_kind j of
           JobStart \<Rightarrow>
             if name \<in> set (failing b) then (''failed'', (units b)(name := None))
             else (''done'', (units b)(name := map_option (\<lambda>u. u\<lparr>unit_active := True\<rparr>) (units b name)))
         | JobStop \<Rightarrow> (''done'', (units b)(name := None)))"

definition run_job :: "bus \<Rightarrow> bus" where
  "run_job b =
     (case queue b of
        [] \<Rightarrow> b
      | j # js \<Rightarrow>
          (case job_outcome b j of
             (result, us) \<Rightarrow> b\<lparr>queue := js, units := us, conns := deliver (job_num j) result (conns b)\<rparr>))"

text \<open>\<open><-ch\<close>: take the delivered value off the channel, if there is one.\<close>

definition recv :: "conn_id \<Rightarrow> job_id \<Rightarrow> bus \<Rightarrow> (string \<times> bus) option" where
  "recv c j b =
     (case conns b c of
        Some l \<Rightarrow>
          (case l j of
             Some (Some r) \<Rightarrow>
               Some (r, b\<lparr>conns := (conns b)(c \<mapsto> l(j := None)), calls := calls b @ [EvRecv c j r]\<rparr>)
           | _ \<Rightarrow> None)
      | None \<Rightarrow> None)"

text \<open>
  A blocking receive: while nothing has been delivered, the manager runs its next
  job. When nothing is delivered and no job is left, the Go receive blocks
  forever: the value \<open>None\<close>. The queue shrinks at every round, so this
  terminates.
\<close>

function await :: "conn_id \<Rightarrow> job_id \<Rightarrow> bus \<Rightarrow> (string \<times> bus) option" where
  "await c j b =
     (case recv c j b of
        Some rb \<Rightarrow> Some rb
      | None \<Rightarrow> if queue b = [] then None else await c j (run_job b))"
  by pat_completeness auto
termination
  by (relation "measure (\<lambda>(c, j, b). length (queue b))")
     (auto simp: run_job_def split: list.splits prod.splits)

declare await.simps [simp del]

definition conn_Close :: "conn_id \<Rightarrow> bus \<Rightarrow> bus" where
  "conn_Close c b = b\<lparr>conns := (conns b)(c := None), calls := calls b @ [EvClose c]\<rparr>"

section \<open>Well-formed bus states\<close>

text \<open>
  The invariant of the bus: job numbers are distinct and below the counter, at
  most one job per unit is pending (the \<open>replace\<close> and \<open>fail\<close> modes both keep
  it so), every pending job's unit is loaded, connections are numbered below
  their counter, and every channel still waiting has its job in the queue, so
  that no waiter misses its completion value.
\<close>

definition wf_bus :: "bus \<Rightarrow> bool" where
  "wf_bus b \<longleftrightarrow>
     distinct (map job_num (queue b)) \<and>
     distinct (map job_unit (queue b)) \<and>
     (\<forall>j \<in> set (queue b). job_num j < next_job b \<and> units b (job_unit j) \<noteq> None) \<and>
     (\<forall>c l. conns b c = Some l \<longrightarrow>
        c < next_conn b \<and>
        (\<forall>j. l j \<noteq> None \<longrightarrow> j < next_job b) \<and>
        (\<forall>j. l j = Some None \<longrightarrow> j \<in> set (map job_num (queue b))))"

section \<open>Lemmas on single operations\<close>

inductive_simps variant_has_sig_simps [simp]:
  "variant_has_sig (VBool v) sg" "variant_has_sig (VString s) sg" "variant_has_sig (VStrings ss) sg"

inductive_cases variant_has_sig_VStringsE: "variant_has_sig (VStrings ss) sg"

lemma variant_sig_unique: "variant_has_sig v s1 \<Longrightarrow> variant_has_sig v s2 \<Longrightarrow> s1 = s2"
  by (induction rule: variant_has_sig.induct) auto

lemma queue_run_job [simp]: "queue (run_job b) = tl (queue b)"
  by (simp add: run_job_def split: list.splits prod.splits)

lemma calls_run_job [simp]: "calls (run_job b) = calls b"
  by (simp add: run_job_def split: list.splits prod.splits)

lemma bus_up_run_job [simp]: "bus_up (run_job b) = bus_up b"
  by (simp add: run_job_def split: list.splits prod.splits)

lemma next_conn_run_job [simp]: "next_conn (run_job b) = next_conn b"
  by (simp add: run_job_def split: list.splits prod.splits)

lemma next_job_run_job [simp]: "next_job (run_job b) = next_job b"
  by (simp add: run_job_def split: list.splits prod.splits)

lemma failing_run_job [simp]: "failing (run_job b) = failing b"
  by (simp add: run_job_def split: list.splits prod.splits)

lemma run_job_Cons:
  "queue b = jb # js \<Longrightarrow>
   run_job b = b\<lparr>queue := js, units := snd (job_outcome b jb),
                 conns := deliver (job_num jb) (fst (job_outcome b jb)) (conns b)\<rparr>"
  by (simp add: run_job_def split: prod.splits)

lemma deliver_dom [simp]: "deliver j r cs c = None \<longleftrightarrow> cs c = None"
  by (simp add: deliver_def)

lemma deliver_other:
  "cs c = Some l \<Longrightarrow> j' \<noteq> j \<Longrightarrow> \<exists>l'. deliver j' r cs c = Some l' \<and> l' j = l j"
  by (simp add: deliver_def)

lemma deliver_waiting:
  "cs c = Some l \<Longrightarrow> l j = Some None \<Longrightarrow> deliver j r cs c = Some (l(j \<mapsto> Some r))"
  by (simp add: deliver_def)

lemma recv_delivered:
  "conns b c = Some l \<Longrightarrow> l j = Some (Some r) \<Longrightarrow>
   recv c j b = Some (r, b\<lparr>conns := (conns b)(c \<mapsto> l(j := None)), calls := calls b @ [EvRecv c j r]\<rparr>)"
  by (simp add: recv_def)

lemma recv_waiting:
  "conns b c = Some l \<Longrightarrow> l j = Some None \<Longrightarrow> recv c j b = None"
  by (simp add: recv_def)

text \<open>The blocking receive returns once the awaited job is in the queue.\<close>

lemma await_returns:
  assumes "conns b c = Some l" and "l j = Some None" and "j \<in> set (map job_num (queue b))"
  shows "\<exists>r b'. await c j b = Some (r, b') \<and> calls b' = calls b @ [EvRecv c j r]"
  using assms
proof (induction c j b arbitrary: l rule: await.induct)
  case (1 c j b)
  obtain jb js where q: "queue b = jb # js"
    using "1.prems"(3) by (cases "queue b") auto
  have none: "recv c j b = None"
    using "1.prems"(1,2) by (rule recv_waiting)
  show ?case
  proof (cases "job_num jb = j")
    case True
    then have "conns (run_job b) c = Some (l(j \<mapsto> Some (fst (job_outcome b jb))))"
      using "1.prems"(1,2) q by (simp add: run_job_Cons deliver_waiting)
    then show ?thesis
      using none q
      by (simp add: await.simps [of c j b] await.simps [of c j "run_job b"] recv_delivered)
  next
    case False
    then obtain l' where l': "conns (run_job b) c = Some l'" "l' j = Some None"
      using "1.prems"(1,2) q deliver_other [of "conns b" c l "job_num jb" j] by (auto simp: run_job_Cons)
    have "j \<in> set (map job_num (queue (run_job b)))"
      using "1.prems"(3) q False by simp
    then obtain r b' where "await c j (run_job b) = Some (r, b')" "calls b' = calls (run_job b) @ [EvRecv c j r]"
      using "1.IH" [OF none _ l'] q by auto
    then show ?thesis
      using none q by (simp add: await.simps [of c j b])
  qed
qed

lemma deliver_empty:
  "cs c = Some Map.empty \<Longrightarrow> deliver j r cs c = Some Map.empty"
  by (simp add: deliver_def)

lemma cancel_jobs_Nil [simp]: "cancel_jobs name [] cs = cs"
  by (simp add: cancel_jobs_def)

lemma cancel_jobs_Cons [simp]:
  "cancel_jobs name (x # q) cs =
     (if job_unit x = name then cancel_jobs name q (deliver (job_num x) ''canceled'' cs)
      else cancel_jobs name q cs)"
  by (simp add: cancel_jobs_def)

lemma cancel_jobs_empty_listener:
  "cs c = Some Map.empty \<Longrightarrow> cancel_jobs name q cs c = Some Map.empty"
  by (induction q arbitrary: cs) (auto simp: deliver_empty)

lemma register_same:
  "cs c = Some l \<Longrightarrow> register c j cs c = Some (l(j \<mapsto> None))"
  by (simp add: register_def)

lemma register_other:
  "c' \<noteq> c \<Longrightarrow> register c j cs c' = cs c'"
  by (simp add: register_def)

text \<open>What an accepted submission does to the bus.\<close>

definition submit :: "conn_id \<Rightarrow> unit_name \<Rightarrow> job_type \<Rightarrow> event \<Rightarrow> bus \<Rightarrow> bus" where
  "submit c name kind ev b =
     b\<lparr>calls := calls b @ [ev],
       queue := filter (\<lambda>x. job_unit x \<noteq> name) (queue b) @
                [\<lparr>job_num = next_job b, job_unit = name, job_kind = kind\<rparr>],
       next_job := Suc (next_job b),
       conns := register c (next_job b) (cancel_jobs name (queue b) (conns b))\<rparr>"

lemma StartTransientUnit_accepted:
  assumes "valid_unit_name name" "list_all valid_property props" "units b name = None"
  shows "StartTransientUnit c name ''replace'' props b =
           (Inr (next_job b),
            submit c name JobStart (EvStartTransientUnit c name ''replace'' props)
              (b\<lparr>units := (units b)(name \<mapsto> \<lparr>unit_props = props, unit_active = False\<rparr>)\<rparr>))"
  using assms
  by (simp add: StartTransientUnit_def enqueue_job_def valid_job_mode_def submit_def
      Let_def)

lemma StartTransientUnit_rejected:
  assumes "\<not> valid_unit_name name \<or> \<not> list_all valid_property props \<or> units b name \<noteq> None"
  shows "StartTransientUnit c name ''replace'' props b =
           (Inl (if \<not> valid_unit_name name then InvalidUnitName name
                 else if units b name \<noteq> None then UnitExists name
                 else InvalidProperty name),
            b\<lparr>calls := calls b @ [EvStartTransientUnit c name ''replace'' props]\<rparr>)"
  using assms by (auto simp: StartTransientUnit_def valid_job_mode_def)

lemma StopUnit_accepted:
  assumes "valid_unit_name name" "units b name \<noteq> None"
  shows "StopUnit c name ''replace'' b =
           (Inr (next_job b), submit c name JobStop (EvStopUnit c name ''replace'') b)"
  using assms
  by (simp add: StopUnit_def enqueue_job_def valid_job_mode_def submit_def
      Let_def)

lemma StopUnit_rejected:
  assumes "\<not> valid_unit_name name \<or> units b name = None"
  shows "StopUnit c name ''replace'' b =
           (Inl (if \<not> valid_unit_name name then InvalidUnitName name else NoSuchUnit name),
            b\<lparr>calls := calls b @ [EvStopUnit c name ''replace'']\<rparr>)"
  using assms by (auto simp: StopUnit_def valid_job_mode_def)

text \<open>A fresh connection's submission is awaited to the end.\<close>

lemma await_submit:
  assumes "conns b c = Some Map.empty"
  shows "\<exists>r b'. await c (next_job b) (submit c name kind ev b) = Some (r, b') \<and>
                calls b' = calls b @ [ev, EvRecv c (next_job b) r]"
proof -
  have "conns (submit c name kind ev b) c = Some (Map.empty(next_job b \<mapsto> None))"
    using assms by (simp add: submit_def register_same cancel_jobs_empty_listener)
  moreover have "next_job b \<in> set (map job_num (queue (submit c name kind ev b)))"
    by (simp add: submit_def)
  ultimately show ?thesis
    using await_returns [of "submit c name kind ev b" c _ "next_job b"]
    by (fastforce simp: submit_def)
qed

lemma units_job_outcome_other:
  "n \<noteq> job_unit j \<Longrightarrow> snd (job_outcome b j) n = units b n"
  by (simp add: job_outcome_def Let_def split: job_type.splits)

lemma job_outcome_local:
  assumes "units b (job_unit j) = units b' (job_unit j)" and "failing b = failing b'"
  shows "fst (job_outcome b j) = fst (job_outcome b' j) \<and>
         snd (job_outcome b j) (job_unit j) = snd (job_outcome b' j) (job_unit j)"
  using assms by (simp add: job_outcome_def Let_def split: job_type.splits)

lemma await_last:
  assumes "conns b c = Some l" and "l (job_num jb) = Some None" and "queue b = q @ [jb]"
    and "\<forall>x \<in> set q. job_unit x \<noteq> job_unit jb \<and> job_num x \<noteq> job_num jb"
  shows "\<exists>b'. await c (job_num jb) b = Some (fst (job_outcome b jb), b') \<and>
              units b' (job_unit jb) = snd (job_outcome b jb) (job_unit jb) \<and>
              calls b' = calls b @ [EvRecv c (job_num jb) (fst (job_outcome b jb))]"
  using assms
proof (induction q arbitrary: b l)
  case Nil
  have none: "recv c (job_num jb) b = None"
    using Nil.prems(1,2) by (rule recv_waiting)
  let ?r = "fst (job_outcome b jb)"
  have "conns (run_job b) c = Some (l(job_num jb \<mapsto> Some ?r))"
    using Nil.prems by (simp add: run_job_Cons deliver_waiting)
  then have "recv c (job_num jb) (run_job b) =
      Some (?r, (run_job b)\<lparr>conns := (conns (run_job b))(c \<mapsto> (l(job_num jb \<mapsto> Some ?r))(job_num jb := None)),
                           calls := calls (run_job b) @ [EvRecv c (job_num jb) ?r]\<rparr>)"
    by (rule recv_delivered) simp
  then have "await c (job_num jb) b =
      Some (?r, (run_job b)\<lparr>conns := (conns (run_job b))(c \<mapsto> (l(job_num jb \<mapsto> Some ?r))(job_num jb := None)),
                           calls := calls (run_job b) @ [EvRecv c (job_num jb) ?r]\<rparr>)"
    using none Nil.prems(3)
    by (simp add: await.simps [of c "job_num jb" b] await.simps [of c "job_num jb" "run_job b"])
  then show ?case
    using Nil.prems(3) by (simp add: run_job_Cons)
next
  case (Cons x q)
  have none: "recv c (job_num jb) b = None"
    using Cons.prems(1,2) by (rule recv_waiting)
  have x: "job_unit x \<noteq> job_unit jb" "job_num x \<noteq> job_num jb"
    using Cons.prems(4) by auto
  obtain l' where l': "conns (run_job b) c = Some l'" "l' (job_num jb) = Some None"
    using Cons.prems(1,2,3) x deliver_other [of "conns b" c l "job_num x" "job_num jb"]
    by (auto simp: run_job_Cons)
  have q: "queue (run_job b) = q @ [jb]" using Cons.prems(3) by simp
  have same: "fst (job_outcome (run_job b) jb) = fst (job_outcome b jb) \<and>
      snd (job_outcome (run_job b) jb) (job_unit jb) = snd (job_outcome b jb) (job_unit jb)"
    using Cons.prems(3) x(1) by (intro job_outcome_local) (simp_all add: run_job_Cons units_job_outcome_other)
  obtain b' where "await c (job_num jb) (run_job b) = Some (fst (job_outcome (run_job b) jb), b')"
      "units b' (job_unit jb) = snd (job_outcome (run_job b) jb) (job_unit jb)"
      "calls b' = calls (run_job b) @ [EvRecv c (job_num jb) (fst (job_outcome (run_job b) jb))]"
    using Cons.IH [OF l' q] Cons.prems(4) by auto
  then show ?case
    using none Cons.prems(3) same by (simp add: await.simps [of c "job_num jb" b])
qed


lemma submit_sel [simp]:
  "calls (submit c name kind ev b) = calls b @ [ev]"
  "units (submit c name kind ev b) = units b"
  "failing (submit c name kind ev b) = failing b"
  "bus_up (submit c name kind ev b) = bus_up b"
  "next_conn (submit c name kind ev b) = next_conn b"
  by (simp_all add: submit_def)

lemma job_outcome_submit [simp]:
  "job_outcome (submit c name kind ev b) j = job_outcome b j"
  by (simp add: job_outcome_def submit_def Let_def split: job_type.splits)

text \<open>
  What the blocking receive of a fresh connection returns after a submission:
  the jobs queued before run first (none of them for this unit), then this
  job, whose result is received.
\<close>

lemma await_submit_outcome:
  fixes name :: unit_name and kind :: job_type
  assumes "conns b c = Some Map.empty" and "\<forall>x \<in> set (queue b). job_num x < next_job b"
  defines "jb \<equiv> \<lparr>job_num = next_job b, job_unit = name, job_kind = kind\<rparr>"
  shows "\<exists>b'. await c (next_job b) (submit c name kind ev b) = Some (fst (job_outcome b jb), b') \<and>
              units b' name = snd (job_outcome b jb) name \<and>
              calls b' = calls b @ [ev, EvRecv c (next_job b) (fst (job_outcome b jb))]"
proof -
  let ?b = "submit c name kind ev b"
  have c: "conns ?b c = Some (Map.empty(next_job b \<mapsto> None))"
    using assms(1) by (simp add: submit_def register_same cancel_jobs_empty_listener)
  have l: "(Map.empty(next_job b \<mapsto> None)) (job_num jb) = Some (None :: string option)"
    by (simp add: jb_def)
  have q: "queue ?b = filter (\<lambda>x. job_unit x \<noteq> name) (queue b) @ [jb]"
    by (simp add: submit_def jb_def)
  have d: "\<forall>x \<in> set (filter (\<lambda>x. job_unit x \<noteq> name) (queue b)).
             job_unit x \<noteq> job_unit jb \<and> job_num x \<noteq> job_num jb"
    using assms(2) by (auto simp: jb_def)
  obtain b' where
      "await c (job_num jb) ?b = Some (fst (job_outcome ?b jb), b')"
      "units b' (job_unit jb) = snd (job_outcome ?b jb) (job_unit jb)"
      "calls b' = calls ?b @ [EvRecv c (job_num jb) (fst (job_outcome ?b jb))]"
    using await_last [OF c l q d] by blast
  then show ?thesis by (simp add: jb_def)
qed

declare dbus_New_def [bus_defs] StartTransientUnit_def [bus_defs] StopUnit_def [bus_defs]
  conn_Close_def [bus_defs] recv_def [bus_defs] enqueue_job_def [bus_defs]

end
