(* ===== verification/BusInvariant.thy ===== *)
theory BusInvariant
  imports Bus
begin

text \<open>
  The bus as a state machine. \<open>bus_op\<close> lists what can happen on the bus: a
  client connects, submits a start or stop job, receives on a channel or closes
  its connection, or the manager runs its next job; \<open>bus_step\<close> performs one
  of them and \<open>reachable\<close> is the set of states reachable from a freshly started
  manager. The invariant \<open>wf_bus\<close> holds initially and is preserved by every
  operation (one lemma per operation, with \<open>cancel_jobs\<close>, \<open>deliver\<close> and
  \<open>register\<close> analysed on single listeners), so it holds in every reachable
  state; there, every channel still waiting for a job is eventually answered.
\<close>

section \<open>Operations and reachable states\<close>

datatype bus_op =
    OpNew
  | OpStart conn_id unit_name string "Property list"
  | OpStop conn_id unit_name string
  | OpRun
  | OpRecv conn_id job_id
  | OpClose conn_id

fun bus_step :: "bus_op \<Rightarrow> bus \<Rightarrow> bus" where
  "bus_step OpNew b = snd (dbus_New b)"
| "bus_step (OpStart c name mode props) b = snd (StartTransientUnit c name mode props b)"
| "bus_step (OpStop c name mode) b = snd (StopUnit c name mode b)"
| "bus_step OpRun b = run_job b"
| "bus_step (OpRecv c j) b = (case recv c j b of Some (r, b') \<Rightarrow> b' | None \<Rightarrow> b)"
| "bus_step (OpClose c) b = conn_Close c b"

inductive reachable :: "unit_name list \<Rightarrow> bus \<Rightarrow> bool" for fails where
  reachable_init: "reachable fails (bus_init fails)"
| reachable_step: "reachable fails b \<Longrightarrow> reachable fails (bus_step op b)"

section \<open>The invariant, operation by operation\<close>

lemma wf_busI:
  assumes "distinct (map job_num (queue b))" and "distinct (map job_unit (queue b))"
    and "\<And>j. j \<in> set (queue b) \<Longrightarrow> job_num j < next_job b \<and> units b (job_unit j) \<noteq> None"
    and "\<And>c l. conns b c = Some l \<Longrightarrow> c < next_conn b"
    and "\<And>c l j. conns b c = Some l \<Longrightarrow> l j \<noteq> None \<Longrightarrow> j < next_job b"
    and "\<And>c l j. conns b c = Some l \<Longrightarrow> l j = Some None \<Longrightarrow> j \<in> set (map job_num (queue b))"
  shows "wf_bus b"
  using assms unfolding wf_bus_def by blast

lemma wf_busD:
  assumes "wf_bus b"
  shows "distinct (map job_num (queue b))" and "distinct (map job_unit (queue b))"
    and "j \<in> set (queue b) \<Longrightarrow> job_num j < next_job b"
    and "j \<in> set (queue b) \<Longrightarrow> units b (job_unit j) \<noteq> None"
    and "conns b c = Some l \<Longrightarrow> c < next_conn b"
    and "conns b c = Some l \<Longrightarrow> l k \<noteq> None \<Longrightarrow> k < next_job b"
    and "conns b c = Some l \<Longrightarrow> l k = Some None \<Longrightarrow> k \<in> set (map job_num (queue b))"
  using assms unfolding wf_bus_def by blast+

lemma wf_bus_calls [simp]: "wf_bus (b\<lparr>calls := es\<rparr>) = wf_bus b"
  by (simp add: wf_bus_def)

lemma wf_bus_init: "wf_bus (bus_init fails)"
  by (simp add: wf_bus_def bus_init_def)

lemma deliver_Some_iff:
  "deliver j r cs c = Some l' \<longleftrightarrow>
     (\<exists>l. cs c = Some l \<and> l' = (if l j = Some None then l(j \<mapsto> Some r) else l))"
  unfolding deliver_def map_option_eq_Some by (simp only: eq_commute)

lemma cancel_jobs_Some:
  "cancel_jobs name q cs c = Some l' \<Longrightarrow>
   \<exists>l. cs c = Some l \<and> dom l' = dom l \<and>
       (\<forall>k. l' k = Some None \<longrightarrow>
          l k = Some None \<and> k \<notin> set (map job_num (filter (\<lambda>j. job_unit j = name) q)))"
proof (induction q arbitrary: cs)
  case Nil
  then show ?case by simp
next
  case (Cons x q)
  show ?case
  proof (cases "job_unit x = name")
    case False
    then show ?thesis using Cons by simp
  next
    case True
    then obtain l1 where l1: "deliver (job_num x) ''canceled'' cs c = Some l1" "dom l' = dom l1"
        "\<forall>k. l' k = Some None \<longrightarrow>
           l1 k = Some None \<and> k \<notin> set (map job_num (filter (\<lambda>j. job_unit j = name) q))"
    proof -
      have "cancel_jobs name q (deliver (job_num x) ''canceled'' cs) c = Some l'"
        using Cons.prems True by simp
      then show ?thesis using Cons.IH that by blast
    qed
    then obtain l where l: "cs c = Some l"
        "l1 = (if l (job_num x) = Some None then l(job_num x \<mapsto> Some ''canceled'') else l)"
      by (auto simp: deliver_Some_iff)
    show ?thesis
    proof (intro exI conjI allI impI)
      show "cs c = Some l" by (rule l(1))
      show "dom l' = dom l" using l1(2) l(2) by auto
    next
      fix k
      assume "l' k = Some None"
      then have k: "l1 k = Some None" "k \<notin> set (map job_num (filter (\<lambda>j. job_unit j = name) q))"
        using l1(3) by blast+
      then show "l k = Some None" using l(2) by (simp split: if_splits)
      show "k \<notin> set (map job_num (filter (\<lambda>j. job_unit j = name) (x # q)))"
        using k l(2) True by (auto split: if_splits)
    qed
  qed
qed
lemma deliver_listener:
  assumes "deliver j r cs c = Some l'"
  obtains l where "cs c = Some l" and "\<And>k. l' k = None \<longleftrightarrow> l k = None"
    and "\<And>k. l' k = Some None \<Longrightarrow> l k = Some None \<and> k \<noteq> j"
proof -
  obtain l where l: "cs c = Some l" "l' = (if l j = Some None then l(j \<mapsto> Some r) else l)"
    using assms by (auto simp only: deliver_Some_iff)
  show ?thesis
  proof (rule that [OF l(1)])
    show "l' k = None \<longleftrightarrow> l k = None" for k using l(2) by simp
    show "l' k = Some None \<Longrightarrow> l k = Some None \<and> k \<noteq> j" for k
      using l(2) by (cases "k = j") (simp_all split: if_splits)
  qed
qed

lemma wf_run_job:
  assumes wf: "wf_bus b"
  shows "wf_bus (run_job b)"
proof (cases "queue b")
  case Nil
  then show ?thesis using wf by (simp add: run_job_def)
next
  case (Cons jb js)
  let ?b = "run_job b"
  have b: "queue ?b = js" "units ?b = snd (job_outcome b jb)"
      "conns ?b = deliver (job_num jb) (fst (job_outcome b jb)) (conns b)"
      "next_job ?b = next_job b" "next_conn ?b = next_conn b"
    using Cons by (simp_all add: run_job_Cons)
  have d: "distinct (map job_num (jb # js))" "distinct (map job_unit (jb # js))"
    using wf_busD(1,2) [OF wf] Cons by simp_all
  show ?thesis
  proof (rule wf_busI)
    show "distinct (map job_num (queue ?b))" "distinct (map job_unit (queue ?b))"
      using d b(1) by simp_all
  next
    fix x assume x: "x \<in> set (queue ?b)"
    then have xs: "x \<in> set js" using b(1) by simp
    then have "x \<in> set (queue b)" "job_unit x \<noteq> job_unit jb"
      using Cons d(2) by (simp_all, metis imageI)
    then show "job_num x < next_job ?b \<and> units ?b (job_unit x) \<noteq> None"
      using wf_busD(3,4) [OF wf] b(2,4) units_job_outcome_other [of "job_unit x" jb b] by simp
  next
    fix c l assume "conns ?b c = Some l"
    then obtain l0 where l0: "conns b c = Some l0" "\<And>k. l k = None \<longleftrightarrow> l0 k = None"
        "\<And>k. l k = Some None \<Longrightarrow> l0 k = Some None \<and> k \<noteq> job_num jb"
      using b(3) by (auto elim: deliver_listener)
    show "c < next_conn ?b" using wf_busD(5) [OF wf l0(1)] b(5) by simp
    show "l k \<noteq> None \<Longrightarrow> k < next_job ?b" for k using wf_busD(6) [OF wf l0(1)] l0(2) b(4) by simp
    show "l k = Some None \<Longrightarrow> k \<in> set (map job_num (queue ?b))" for k
      using wf_busD(7) [OF wf l0(1)] l0(3) [of k] b(1) Cons by auto
  qed
qed
lemma register_listener:
  assumes "register c j cs c' = Some l'"
  obtains l where "cs c' = Some l" and "l' = (if c' = c then l(j \<mapsto> None) else l)"
  using assms by (cases "c' = c") (auto simp: register_def)

lemma wf_enqueue_job:
  assumes wf: "wf_bus b" and loaded: "units b name \<noteq> None"
  shows "wf_bus (snd (enqueue_job c name kind mode b))"
proof (cases "mode = ''fail'' \<and> (\<exists>j \<in> set (queue b). job_unit j = name)")
  case True
  then show ?thesis using wf by (simp add: enqueue_job_def)
next
  case False
  let ?j = "next_job b"
  let ?q = "filter (\<lambda>x. job_unit x \<noteq> name) (queue b)"
  let ?new = "\<lparr>job_num = ?j, job_unit = name, job_kind = kind\<rparr>"
  let ?b = "snd (enqueue_job c name kind mode b)"
  have b: "queue ?b = ?q @ [?new]" "units ?b = units b" "next_job ?b = Suc ?j"
      "next_conn ?b = next_conn b" "conns ?b = register c ?j (cancel_jobs name (queue b) (conns b))"
    by (simp_all only: enqueue_job_def if_not_P [OF False] Let_def snd_conv bus.select_convs
          bus.update_convs) simp_all
  have below: "x \<in> set (queue b) \<Longrightarrow> job_num x < ?j" for x using wf_busD(3) [OF wf] .
  show ?thesis
  proof (rule wf_busI)
    show "distinct (map job_num (queue ?b))"
    proof -
      have "?j \<notin> set (map job_num ?q)" using below by fastforce
      then show ?thesis using b(1) wf_busD(1) [OF wf] by (simp add: distinct_map_filter)
    qed
    show "distinct (map job_unit (queue ?b))"
      using b(1) wf_busD(2) [OF wf] by (auto simp: distinct_map_filter)
  next
    fix x assume "x \<in> set (queue ?b)"
    then show "job_num x < next_job ?b \<and> units ?b (job_unit x) \<noteq> None"
      using b(1-3) below wf_busD(4) [OF wf] loaded by (auto simp: less_Suc_eq)
  next
    fix c' l' assume "conns ?b c' = Some l'"
    then obtain l1 where l1: "cancel_jobs name (queue b) (conns b) c' = Some l1"
        "l' = (if c' = c then l1(?j \<mapsto> None) else l1)"
      using b(5) by (auto elim: register_listener)
    then obtain l where l: "conns b c' = Some l" "dom l1 = dom l"
        "\<And>k. l1 k = Some None \<Longrightarrow>
           l k = Some None \<and> k \<notin> set (map job_num (filter (\<lambda>j. job_unit j = name) (queue b)))"
      by (blast dest: cancel_jobs_Some)
    show "c' < next_conn ?b" using wf_busD(5) [OF wf l(1)] b(4) by simp
    show "l' k \<noteq> None \<Longrightarrow> k < next_job ?b" for k
    proof -
      assume "l' k \<noteq> None"
      then have "k = ?j \<or> l k \<noteq> None" using l1(2) l(2) by (auto split: if_splits)
      moreover have "l k \<noteq> None \<Longrightarrow> k < ?j" by (rule wf_busD(6) [OF wf l(1)])
      ultimately show ?thesis using b(3) by auto
    qed
    show "l' k = Some None \<Longrightarrow> k \<in> set (map job_num (queue ?b))" for k
    proof -
      assume w: "l' k = Some None"
      show ?thesis
      proof (cases "k = ?j")
        case True
        then show ?thesis using b(1) by simp
      next
        case False
        then have "l1 k = Some None" using w l1(2) by (simp split: if_splits)
        then have "l k = Some None" "k \<notin> set (map job_num (filter (\<lambda>j. job_unit j = name) (queue b)))"
          using l(3) by blast+
        then show ?thesis using wf_busD(7) [OF wf l(1)] b(1) by auto
      qed
    qed
  qed
qed
lemma wf_bus_load:
  "wf_bus b \<Longrightarrow> wf_bus (b\<lparr>units := (units b)(n \<mapsto> u)\<rparr>)"
  unfolding wf_bus_def by simp

lemma enqueue_job_units:
  "enqueue_job c n k m (b\<lparr>units := us\<rparr>) =
     (fst (enqueue_job c n k m b), (snd (enqueue_job c n k m b))\<lparr>units := us\<rparr>)"
  by (simp add: enqueue_job_def Let_def)

lemma enqueue_job_Inl: "enqueue_job c n k m b = (Inl e, b') \<Longrightarrow> b' = b"
  by (simp add: enqueue_job_def Let_def split: if_splits)

lemma enqueue_job_units_same: "units (snd (enqueue_job c n k m b)) = units b"
  by (simp add: enqueue_job_def Let_def)

lemma wf_StartTransientUnit:
  assumes wf: "wf_bus b"
  shows "wf_bus (snd (StartTransientUnit c name mode props b))"
proof -
  define b1 where "b1 = b\<lparr>calls := calls b @ [EvStartTransientUnit c name mode props]\<rparr>"
  define u where "u = \<lparr>unit_props = props, unit_active = False\<rparr>"
  have wf1: "wf_bus b1" using wf by (simp add: b1_def)
  have "snd (StartTransientUnit c name mode props b) = b1 \<or>
        snd (StartTransientUnit c name mode props b) =
          snd (enqueue_job c name JobStart mode (b1\<lparr>units := (units b1)(name \<mapsto> u)\<rparr>))"
  proof (cases "enqueue_job c name JobStart mode b1")
    case (Pair r b')
    then show ?thesis
      using enqueue_job_Inl [of c name JobStart mode b1 _ b'] enqueue_job_units_same [of c name JobStart mode b1]
      by (cases r) (auto simp: StartTransientUnit_def b1_def [symmetric] u_def [symmetric]
                      enqueue_job_units Let_def)
  qed
  then show ?thesis
    using wf1 wf_enqueue_job [OF wf_bus_load [OF wf1], of name u] by auto
qed

lemma wf_StopUnit:
  assumes wf: "wf_bus b"
  shows "wf_bus (snd (StopUnit c name mode b))"
proof -
  define b1 where "b1 = b\<lparr>calls := calls b @ [EvStopUnit c name mode]\<rparr>"
  have wf1: "wf_bus b1" using wf by (simp add: b1_def)
  have "snd (StopUnit c name mode b) = b1 \<or>
        units b1 name \<noteq> None \<and> snd (StopUnit c name mode b) = snd (enqueue_job c name JobStop mode b1)"
    by (auto simp: StopUnit_def b1_def [symmetric] Let_def)
  then show ?thesis using wf1 wf_enqueue_job [OF wf1] by auto
qed

lemma wf_dbus_New: "wf_bus b \<Longrightarrow> wf_bus (snd (dbus_New b))"
  unfolding wf_bus_def dbus_New_def Let_def by (auto simp: less_Suc_eq)

lemma wf_conn_Close: "wf_bus b \<Longrightarrow> wf_bus (conn_Close c b)"
  unfolding wf_bus_def conn_Close_def by auto

lemma wf_recv:
  assumes "wf_bus b" and "recv c j b = Some (r, b')"
  shows "wf_bus b'"
proof -
  obtain l where l: "conns b c = Some l" "b' = b\<lparr>conns := (conns b)(c \<mapsto> l(j := None)), calls := calls b @ [EvRecv c j r]\<rparr>"
    using assms(2) by (auto simp: recv_def split: option.splits)
  show ?thesis using assms(1) l unfolding wf_bus_def by (auto split: if_splits)
qed

lemma wf_await:
  "wf_bus b \<Longrightarrow> await c j b = Some (r, b') \<Longrightarrow> wf_bus b'"
proof (induction c j b rule: await.induct)
  case (1 c j b)
  show ?case
  proof (cases "recv c j b")
    case (Some rb)
    then show ?thesis using "1.prems" wf_recv [of b c j r b'] by (simp add: await.simps [of c j b])
  next
    case None
    then have "queue b \<noteq> []" "await c j (run_job b) = Some (r, b')"
      using "1.prems"(2) by (simp_all add: await.simps [of c j b] split: if_splits)
    then show ?thesis using "1.IH" [OF None] "1.prems"(1) wf_run_job by blast
  qed
qed

lemma wf_bus_OpRecv: "wf_bus b \<Longrightarrow> wf_bus (bus_step (OpRecv c j) b)"
  using wf_recv [of b c j] by (simp split: option.splits)

lemmas wf_bus_ops = wf_run_job wf_StartTransientUnit wf_StopUnit wf_dbus_New wf_conn_Close
  wf_bus_OpRecv

lemma reachable_wf_bus: "reachable fails b \<Longrightarrow> wf_bus b"
proof (induction rule: reachable.induct)
  case reachable_init
  then show ?case by (rule wf_bus_init)
next
  case (reachable_step b op)
  then show ?case by (cases op) (simp_all add: wf_bus_ops del: bus_step.simps(5))
qed

section \<open>Open connections\<close>

text \<open>
  Only \<open>New\<close> opens a connection and only \<open>Close\<close> closes one: delivering,
  registering, cancelling, queueing, running a job and receiving keep the set of
  open connections.
\<close>

lemma dom_deliver [simp]: "dom (deliver j r cs) = dom cs"
  by (auto simp: deliver_def)

lemma dom_register [simp]: "dom (register c j cs) = dom cs"
  by (auto simp: register_def)

lemma dom_fold_deliver: "dom (fold (\<lambda>j. deliver (job_num j) r) js cs) = dom cs"
  by (induction js arbitrary: cs) simp_all

lemma dom_cancel_jobs [simp]: "dom (cancel_jobs name q cs) = dom cs"
  by (simp add: cancel_jobs_def dom_fold_deliver)

lemma dom_enqueue_job: "dom (conns (snd (enqueue_job c name kind mode b))) = dom (conns b)"
  by (simp add: enqueue_job_def Let_def)

lemma dom_StartTransientUnit: "dom (conns (snd (StartTransientUnit c name mode ps b))) = dom (conns b)"
proof -
  let ?b = "b\<lparr>calls := calls b @ [EvStartTransientUnit c name mode ps]\<rparr>"
  obtain r b' where e: "enqueue_job c name JobStart mode ?b = (r, b')" by fastforce
  have "dom (conns b') = dom (conns b)" using dom_enqueue_job [of c name JobStart mode ?b] e by simp
  then show ?thesis using e by (cases r) (simp_all add: StartTransientUnit_def Let_def)
qed

lemma dom_StopUnit: "dom (conns (snd (StopUnit c name mode b))) = dom (conns b)"
  using dom_enqueue_job [of c name JobStop mode "b\<lparr>calls := calls b @ [EvStopUnit c name mode]\<rparr>"]
  by (simp add: StopUnit_def Let_def)

lemma dom_run_job: "dom (conns (run_job b)) = dom (conns b)"
  by (simp add: run_job_def split: list.splits prod.splits)

lemma dom_recv: "recv c j b = Some (r, b') \<Longrightarrow> dom (conns b') = dom (conns b)"
  by (auto simp: recv_def split: option.splits if_splits)

lemma dom_await: "await c j b = Some (r, b') \<Longrightarrow> dom (conns b') = dom (conns b)"
proof (induction c j b rule: await.induct)
  case (1 c j b)
  show ?case
  proof (cases "recv c j b")
    case (Some rb)
    then show ?thesis using "1.prems" dom_recv [of c j b r b'] by (simp add: await.simps [of c j b])
  next
    case None
    then have "await c j (run_job b) = Some (r, b')"
      using "1.prems" by (simp add: await.simps [of c j b] split: if_splits)
    then show ?thesis using "1.IH" [OF None] "1.prems" dom_run_job by (simp add: await.simps [of c j b] None split: if_splits)
  qed
qed

lemma dom_conn_Close [simp]: "dom (conns (conn_Close c b)) = dom (conns b) - {c}"
  by (auto simp: conn_Close_def)

lemma dom_dbus_New:
  "wf_bus b \<Longrightarrow> dbus_New b = (Inr c, b') \<Longrightarrow> dom (conns b') = insert c (dom (conns b)) \<and> c \<notin> dom (conns b)"
  by (auto simp: dbus_New_def Let_def wf_bus_def split: if_splits)

section \<open>Properties\<close>

text \<open>
  Every operation on the bus preserves its invariant: distinct pending jobs,
  at most one per unit, each for a loaded unit, and every waiting channel's job
  still pending.
\<close>

theorem bus_step_preserves_wf:
  assumes "wf_bus b"
  shows "wf_bus (bus_step op b)"
  using assms by (cases op) (simp_all add: wf_bus_ops del: bus_step.simps(5))

theorem bus_step_preserves_wf_witness:
  "wf_bus (bus_init []) \<and> wf_bus (bus_step OpNew (bus_init []))"
  using bus_step_preserves_wf [of "bus_init []" OpNew] wf_bus_init by simp

text \<open>
  No lost wake-up: in every reachable state, a channel registered for a job
  and not yet answered is answered, the blocking receive on it returns, and the
  only client action it adds to the log is the receive.
\<close>

theorem reachable_waiting_answered:
  assumes "reachable fails b" and "conns b c = Some l" and "l j = Some None"
  shows "\<exists>r b'. await c j b = Some (r, b') \<and> calls b' = calls b @ [EvRecv c j r]"
  using await_returns [OF assms(2,3)] wf_busD(7) [OF reachable_wf_bus [OF assms(1)] assms(2,3)]
  by blast

end
