(* ===== verification/Controller.thy ===== *)
theory Controller
  imports Naming BusInvariant
begin

text \<open>
  The delegating controller of \<open>systemd.go\<close>: the struct \<open>SystemdController\<close>, its
  constructor \<open>NewSystemd\<close>, the methods \<open>Name\<close>, \<open>Create\<close> and \<open>Delete\<close>, the
  helper \<open>newProperty\<close> and the subsystem list \<open>Systemd()\<close>. \<open>Create\<close> and
  \<open>Delete\<close> run against the bus of theory \<open>Bus\<close>; their result is \<open>None\<close> when
  the Go call would block forever on \<open><-ch\<close>, and otherwise the returned error
  (\<open>None\<close> for \<open>nil\<close>) with the new bus state. The deferred \<open>conn.Close()\<close> is
  applied on every return after a successful \<open>New\<close>.
\<close>

section \<open>The controller\<close>

text \<open>
  \<open>mu sync.Mutex\<close> is represented by whether it is held; no method of the
  controller takes it.
\<close>

record SystemdController =
  mu :: bool
  root :: string

definition NewSystemd :: "string \<Rightarrow> error + SystemdController" where
  "NewSystemd rootPath = Inr \<lparr>mu = False, root = rootPath\<rparr>"

definition Name :: "SystemdController \<Rightarrow> Name" where
  "Name s = SystemdDbus"

definition newProperty :: "string \<Rightarrow> variant \<Rightarrow> Property" where
  "newProperty name v = \<lparr>prop_name = name, prop_value = v\<rparr>"

text \<open>
  Go's parameter \<open>units interface{}\<close> is called \<open>v\<close> here (\<open>units\<close> is a field of
  the bus); \<open>dbus.MakeVariant\<close> is the identity on \<open>variant\<close>.
\<close>

text \<open>The property list built by \<open>Create\<close> (lines 67--75).\<close>

definition create_properties :: "string \<Rightarrow> string \<Rightarrow> Property list" where
  "create_properties slice name =
     [PropDescription (''cgroup '' @ name),
      PropWants [slice],
      newProperty ''DefaultDependencies'' (VBool False),
      newProperty ''Delegate'' (VBool True),
      newProperty ''MemoryAccounting'' (VBool True),
      newProperty ''CPUAccounting'' (VBool True),
      newProperty ''BlockIOAccounting'' (VBool True)]"

text \<open>
  The resource limits \<open>resources *specs.LinuxResources\<close> are a parameter of any
  type \<open>'r\<close>: \<open>Create\<close> never reads them.
\<close>

definition Create :: "SystemdController \<Rightarrow> string \<Rightarrow> 'r \<Rightarrow> bus \<Rightarrow> (error option \<times> bus) option" where
  "Create s path resources b =
     (case dbus_New b of
        (Inl err, b) \<Rightarrow> Some (Some err, b)
      | (Inr conn, b) \<Rightarrow>
          (let (slice, name) = splitName path;
               properties = create_properties slice name
           in case StartTransientUnit conn name ''replace'' properties b of
                (Inl err, b) \<Rightarrow> Some (Some err, conn_Close conn b)
              | (Inr ch, b) \<Rightarrow>
                  (case await conn ch b of
                     None \<Rightarrow> None
                   | Some (_, b) \<Rightarrow> Some (None, conn_Close conn b))))"

definition Delete :: "SystemdController \<Rightarrow> string \<Rightarrow> bus \<Rightarrow> (error option \<times> bus) option" where
  "Delete s path b =
     (case dbus_New b of
        (Inl err, b) \<Rightarrow> Some (Some err, b)
      | (Inr conn, b) \<Rightarrow>
          (let (_, name) = splitName path
           in case StopUnit conn name ''replace'' b of
                (Inl err, b) \<Rightarrow> Some (Some err, conn_Close conn b)
              | (Inr ch, b) \<Rightarrow>
                  (case await conn ch b of
                     None \<Rightarrow> None
                   | Some (_, b) \<Rightarrow> Some (None, conn_Close conn b))))"

section \<open>The subsystem list\<close>

text \<open>
  A \<open>cgroups.Subsystem\<close> of the list \<open>Systemd()\<close> returns: this controller, or one
  of the filesystem controllers that \<open>defaults(root)\<close> builds (type \<open>'s\<close>, with its
  own name function). \<open>v1MountPoint()\<close> and \<open>defaults\<close> are not under src/; they
  are parameters: the mount point or its error, and the function from the root to
  the default subsystems or an error.
\<close>

datatype 's Subsystem = SystemdSub SystemdController | OtherSub 's

primrec subsystem_name :: "('s \<Rightarrow> Name) \<Rightarrow> 's Subsystem \<Rightarrow> Name" where
  "subsystem_name nm (SystemdSub s) = Name s"
| "subsystem_name nm (OtherSub x) = nm x"

definition Systemd :: "error + string \<Rightarrow> (string \<Rightarrow> error + 's list) \<Rightarrow> error + 's Subsystem list" where
  "Systemd v1MountPoint defaults =
     (case v1MountPoint of
        Inl err \<Rightarrow> Inl err
      | Inr rootPath \<Rightarrow>
          (case defaults rootPath of
             Inl err \<Rightarrow> Inl err
           | Inr defaultSubsystems \<Rightarrow>
               (case NewSystemd rootPath of
                  Inl err \<Rightarrow> Inl err
                | Inr s \<Rightarrow> Inr (SystemdSub s # map OtherSub defaultSubsystems))))"

section \<open>Properties\<close>

lemma dbus_New_up:
  "bus_up b \<Longrightarrow> dbus_New b =
     (Inr (next_conn b), b\<lparr>conns := (conns b)(next_conn b \<mapsto> Map.empty),
                           next_conn := Suc (next_conn b), calls := calls b @ [EvConnect (next_conn b)]\<rparr>)"
  by (simp add: dbus_New_def Let_def)

lemma dbus_New_down: "\<not> bus_up b \<Longrightarrow> dbus_New b = (Inl ConnectionError, b)"
  by (simp add: dbus_New_def Let_def)

lemma create_properties_valid:
  "list_all valid_property (create_properties slice name) \<longleftrightarrow> valid_unit_name slice"
  by (simp add: create_properties_def PropDescription_def PropWants_def newProperty_def valid_property_def
      property_well_typed_def unit_property_sig_def)

lemmas controller_simps = dbus_New_up dbus_New_down create_properties_valid
  StartTransientUnit_accepted StartTransientUnit_rejected StopUnit_accepted StopUnit_rejected

text \<open>
  C3. When no connection to the service manager can be opened, \<open>Create\<close> returns the connection error at once: no request is made, nothing waits, and the bus is unchanged.
\<close>

theorem Create_connection_error:
  assumes "\<not> bus_up b"
  shows "Create s path resources b = Some (Some ConnectionError, b)"
  using assms by (simp add: Create_def dbus_New_down)

theorem Create_connection_error_witness:
  "Create \<lparr>mu = False, root = ''/sys/fs/cgroup''\<rparr> ''system.slice/foo.slice'' ()
     ((bus_init [])\<lparr>bus_up := False\<rparr>) = Some (Some ConnectionError, (bus_init [])\<lparr>bus_up := False\<rparr>)"
  using Create_connection_error [of "(bus_init [])\<lparr>bus_up := False\<rparr>"] by (simp add: bus_init_def)

text \<open>
  C4. When the service manager rejects the \<open>StartTransientUnit\<close> request (checked in systemd's order: invalid unit name, a unit of that name already loaded, invalid \<open>Wants\<close> target), \<open>Create\<close> returns that error without waiting: the log shows the connection, the one request and the deferred close, and nothing else of the bus changes.
\<close>

theorem Create_rejected:
  assumes "bus_up b" and "splitName path = (slice, name)"
    and "\<not> valid_unit_name name \<or> \<not> valid_unit_name slice \<or> units b name \<noteq> None"
  shows "Create s path resources b =
           Some (Some (if \<not> valid_unit_name name then InvalidUnitName name
                       else if units b name \<noteq> None then UnitExists name
                       else InvalidProperty name),
                 b\<lparr>conns := (conns b)(next_conn b := None), next_conn := Suc (next_conn b),
                   calls := calls b @ [EvConnect (next_conn b),
                     EvStartTransientUnit (next_conn b) name ''replace'' (create_properties slice name),
                     EvClose (next_conn b)]\<rparr>)"
  using assms by (auto simp: Create_def controller_simps conn_Close_def)

theorem Create_rejected_witness:
  "Create \<lparr>mu = False, root = ''/sys/fs/cgroup''\<rparr> ''mygroup/mycontainer'' () (bus_init []) =
     Some (Some (InvalidUnitName ''mycontainer''),
           (bus_init [])\<lparr>next_conn := 1, calls := [EvConnect 0,
              EvStartTransientUnit 0 ''mycontainer'' ''replace'' (create_properties ''mygroup'' ''mycontainer''),
              EvClose 0]\<rparr>)"
  using Create_rejected [of "bus_init []" "''mygroup/mycontainer''" "''mygroup''" "''mycontainer''"]
  by (simp add: bus_init_def splitName_def Split_def TrimSuffix_def HasSuffix_def IsPathSeparator_def valid_unit_name_def unit_suffixes_def)

lemma Create_accepted_close:
  assumes "bus_up b" and "splitName path = (slice, name)"
    and "valid_unit_name name" and "valid_unit_name slice" and "units b name = None"
  shows "\<exists>r b3. Create s path resources b = Some (None, conn_Close (next_conn b) b3) \<and>
           calls b3 = calls b @ [EvConnect (next_conn b),
             EvStartTransientUnit (next_conn b) name ''replace'' (create_properties slice name),
             EvRecv (next_conn b) (next_job b) r]"
proof -
  let ?c = "next_conn b"
  let ?ev = "EvStartTransientUnit ?c name ''replace'' (create_properties slice name)"
  let ?b1 = "b\<lparr>conns := (conns b)(?c \<mapsto> Map.empty), next_conn := Suc ?c, calls := calls b @ [EvConnect ?c]\<rparr>"
  let ?b2 = "?b1\<lparr>units := (units b)(name \<mapsto> \<lparr>unit_props = create_properties slice name, unit_active = False\<rparr>)\<rparr>"
  obtain r b3 where aw: "await ?c (next_job b) (submit ?c name JobStart ?ev ?b2) = Some (r, b3)"
      and cl: "calls b3 = calls b @ [EvConnect ?c, ?ev, EvRecv ?c (next_job b) r]"
    using await_submit [of ?b2 ?c name JobStart ?ev] by auto
  have "Create s path resources b = Some (None, conn_Close ?c b3)"
    using assms aw by (simp add: Create_def controller_simps)
  with cl show ?thesis by blast
qed

text \<open>
  C1. When the request is accepted, \<open>Create\<close> returns success after issuing exactly one \<open>StartTransientUnit\<close> request for the unit (in mode \<open>replace\<close>, with the property list of lines 67--75: description, \<open>Wants\<close> of the parent, default dependencies off, delegation and memory, CPU and block-I/O accounting on) and consuming exactly one completion value for its job, and the connection is closed.
\<close>

theorem Create_accepted:
  assumes "bus_up b" and "splitName path = (slice, name)"
    and "valid_unit_name name" and "valid_unit_name slice" and "units b name = None"
  shows "\<exists>r b'. Create s path resources b = Some (None, b') \<and>
           calls b' = calls b @ [EvConnect (next_conn b),
             EvStartTransientUnit (next_conn b) name ''replace'' (create_properties slice name),
             EvRecv (next_conn b) (next_job b) r, EvClose (next_conn b)] \<and>
           conns b' (next_conn b) = None"
  using Create_accepted_close [OF assms, of s resources] by (auto simp: conn_Close_def)

theorem Create_accepted_witness:
  "\<exists>r b'. Create \<lparr>mu = False, root = ''/sys/fs/cgroup''\<rparr> ''system.slice/foo.slice'' () (bus_init []) =
      Some (None, b') \<and>
    calls b' = [EvConnect 0,
      EvStartTransientUnit 0 ''foo.slice'' ''replace'' (create_properties ''system.slice'' ''foo.slice''),
      EvRecv 0 0 r, EvClose 0] \<and> conns b' 0 = None"
  using Create_accepted [of "bus_init []" "''system.slice/foo.slice''" "''system.slice''" "''foo.slice''"]
  by (simp add: bus_init_def splitName_def Split_def TrimSuffix_def HasSuffix_def IsPathSeparator_def valid_unit_name_def unit_suffixes_def)

text \<open>
  C2. \<open>Create\<close> always returns: its single blocking receive is always answered, because the awaited job is in the manager's queue, the manager runs its queue in order and delivers each result to the registered channel.
\<close>

theorem Create_returns: "Create s path resources b \<noteq> None"
proof -
  obtain slice name where sn: "splitName path = (slice, name)" by fastforce
  show ?thesis
  proof (cases "bus_up b \<and> valid_unit_name name \<and> valid_unit_name slice \<and> units b name = None")
    case True
    with sn show ?thesis using Create_accepted_close [of b path slice name s resources] by auto
  next
    case rejected: False
    show ?thesis
    proof (cases "bus_up b")
      case True
      with rejected sn show ?thesis by (auto simp: Create_def controller_simps)
    next
      case False
      then show ?thesis by (simp add: Create_def controller_simps)
    qed
  qed
qed

lemma wf_bus_jobs_below: "wf_bus b \<Longrightarrow> \<forall>x \<in> set (queue b). job_num x < next_job b"
  by (simp add: wf_bus_def)

lemma Create_outcome:
  assumes "\<forall>x \<in> set (queue b). job_num x < next_job b"
    and "bus_up b" and "splitName path = (slice, name)"
    and "valid_unit_name name" and "valid_unit_name slice" and "units b name = None"
  defines "r \<equiv> (if name \<in> set (failing b) then ''failed'' else ''done'')"
  shows "\<exists>b'. Create s path resources b = Some (None, b') \<and>
           units b' name = (if name \<in> set (failing b) then None
                            else Some \<lparr>unit_props = create_properties slice name, unit_active = True\<rparr>) \<and>
           calls b' = calls b @ [EvConnect (next_conn b),
             EvStartTransientUnit (next_conn b) name ''replace'' (create_properties slice name),
             EvRecv (next_conn b) (next_job b) r, EvClose (next_conn b)]"
proof -
  let ?c = "next_conn b"
  let ?ev = "EvStartTransientUnit ?c name ''replace'' (create_properties slice name)"
  let ?b2 = "b\<lparr>conns := (conns b)(?c \<mapsto> Map.empty), next_conn := Suc ?c, calls := calls b @ [EvConnect ?c],
               units := (units b)(name \<mapsto> \<lparr>unit_props = create_properties slice name, unit_active = False\<rparr>)\<rparr>"
  let ?jb = "\<lparr>job_num = next_job b, job_unit = name, job_kind = JobStart\<rparr>"
  have out: "job_outcome ?b2 ?jb =
      (r, (units ?b2)(name := (if name \<in> set (failing b) then None
                              else Some \<lparr>unit_props = create_properties slice name, unit_active = True\<rparr>)))"
    by (simp add: job_outcome_def r_def)
  obtain b3 where aw: "await ?c (next_job b) (submit ?c name JobStart ?ev ?b2) = Some (r, b3)"
      and u: "units b3 name = (if name \<in> set (failing b) then None
                   else Some \<lparr>unit_props = create_properties slice name, unit_active = True\<rparr>)"
      and cl: "calls b3 = calls b @ [EvConnect ?c, ?ev, EvRecv ?c (next_job b) r]"
    using await_submit_outcome [of ?b2 ?c name JobStart ?ev] assms(1) out by auto
  have "Create s path resources b = Some (None, conn_Close ?c b3)"
    using assms aw by (simp add: Create_def controller_simps)
  with u cl show ?thesis by (simp add: conn_Close_def)
qed

text \<open>
  C5. On a well-formed bus, an accepted \<open>Create\<close> whose start job succeeds leaves the unit loaded and active with exactly the property list \<open>Create\<close> built, so the accounting flags are set on the unit.
\<close>

theorem Create_activates_unit:
  assumes "wf_bus b" and "bus_up b" and "splitName path = (slice, name)"
    and "valid_unit_name name" and "valid_unit_name slice" and "units b name = None"
    and "name \<notin> set (failing b)"
  shows "\<exists>b'. Create s path resources b = Some (None, b') \<and>
           units b' name = Some \<lparr>unit_props = create_properties slice name, unit_active = True\<rparr>"
  using Create_outcome [OF wf_bus_jobs_below [OF assms(1)] assms(2-6), of s resources] assms(7)
  by auto

theorem Create_activates_unit_witness:
  "\<exists>b'. Create \<lparr>mu = False, root = ''/sys/fs/cgroup''\<rparr> ''system.slice/foo.slice'' () (bus_init []) =
      Some (None, b') \<and>
    units b' ''foo.slice'' = Some \<lparr>unit_props = create_properties ''system.slice'' ''foo.slice'', unit_active = True\<rparr>"
  using Create_activates_unit [of "bus_init []" "''system.slice/foo.slice''" "''system.slice''" "''foo.slice''"]
  by (simp add: bus_init_def splitName_def Split_def TrimSuffix_def HasSuffix_def IsPathSeparator_def valid_unit_name_def unit_suffixes_def wf_bus_def)

text \<open>
  C6. \<open>Create\<close> does not inspect the completion value: when the start job fails, the unit is unloaded and the value received is \<open>failed\<close>, yet \<open>Create\<close> still returns success.
\<close>

theorem Create_ignores_job_failure:
  assumes "wf_bus b" and "bus_up b" and "splitName path = (slice, name)"
    and "valid_unit_name name" and "valid_unit_name slice" and "units b name = None"
    and "name \<in> set (failing b)"
  shows "\<exists>b'. Create s path resources b = Some (None, b') \<and> units b' name = None \<and>
           EvRecv (next_conn b) (next_job b) ''failed'' \<in> set (calls b')"
  using Create_outcome [OF wf_bus_jobs_below [OF assms(1)] assms(2-6), of s resources] assms(7)
  by auto

theorem Create_ignores_job_failure_witness:
  "\<exists>b'. Create \<lparr>mu = False, root = ''/sys/fs/cgroup''\<rparr> ''system.slice/foo.slice'' () (bus_init [''foo.slice'']) =
      Some (None, b') \<and> units b' ''foo.slice'' = None \<and> EvRecv 0 0 ''failed'' \<in> set (calls b')"
  using Create_ignores_job_failure [of "bus_init [''foo.slice'']" "''system.slice/foo.slice''" "''system.slice''" "''foo.slice''"]
  by (simp add: bus_init_def splitName_def Split_def TrimSuffix_def HasSuffix_def IsPathSeparator_def valid_unit_name_def unit_suffixes_def wf_bus_def)

text \<open>
  C9. When no connection can be opened, \<open>Delete\<close> returns the connection error without any request and leaves the bus unchanged.
\<close>

theorem Delete_connection_error:
  assumes "\<not> bus_up b"
  shows "Delete s path b = Some (Some ConnectionError, b)"
  using assms by (simp add: Delete_def dbus_New_down)

theorem Delete_connection_error_witness:
  "Delete \<lparr>mu = False, root = ''/sys/fs/cgroup''\<rparr> ''system.slice/foo.slice''
     ((bus_init [])\<lparr>bus_up := False\<rparr>) = Some (Some ConnectionError, (bus_init [])\<lparr>bus_up := False\<rparr>)"
  using Delete_connection_error [of "(bus_init [])\<lparr>bus_up := False\<rparr>"] by (simp add: bus_init_def)

text \<open>
  C13. When \<open>StopUnit\<close> is rejected (invalid unit name or no such unit), \<open>Delete\<close> returns that error without waiting, after the connection, the one request and the close.
\<close>

theorem Delete_rejected:
  assumes "bus_up b" and "snd (splitName path) = name"
    and "\<not> valid_unit_name name \<or> units b name = None"
  shows "Delete s path b =
           Some (Some (if \<not> valid_unit_name name then InvalidUnitName name else NoSuchUnit name),
                 b\<lparr>conns := (conns b)(next_conn b := None), next_conn := Suc (next_conn b),
                   calls := calls b @ [EvConnect (next_conn b), EvStopUnit (next_conn b) name ''replace'',
                     EvClose (next_conn b)]\<rparr>)"
  using assms by (auto simp: Delete_def controller_simps conn_Close_def split: prod.splits)

theorem Delete_rejected_witness:
  "Delete \<lparr>mu = False, root = ''/sys/fs/cgroup''\<rparr> ''system.slice/foo.slice'' (bus_init []) =
     Some (Some (NoSuchUnit ''foo.slice''),
           (bus_init [])\<lparr>next_conn := 1,
              calls := [EvConnect 0, EvStopUnit 0 ''foo.slice'' ''replace'', EvClose 0]\<rparr>)"
  using Delete_rejected [of "bus_init []" "''system.slice/foo.slice''" "''foo.slice''"]
  by (simp add: bus_init_def splitName_def Split_def TrimSuffix_def HasSuffix_def IsPathSeparator_def valid_unit_name_def unit_suffixes_def)

lemma Delete_accepted_close:
  assumes "bus_up b" and "snd (splitName path) = name"
    and "valid_unit_name name" and "units b name \<noteq> None"
  shows "\<exists>r b3. Delete s path b = Some (None, conn_Close (next_conn b) b3) \<and>
           calls b3 = calls b @ [EvConnect (next_conn b), EvStopUnit (next_conn b) name ''replace'',
             EvRecv (next_conn b) (next_job b) r]"
proof -
  let ?c = "next_conn b"
  let ?ev = "EvStopUnit ?c name ''replace''"
  let ?b1 = "b\<lparr>conns := (conns b)(?c \<mapsto> Map.empty), next_conn := Suc ?c, calls := calls b @ [EvConnect ?c]\<rparr>"
  obtain r b3 where aw: "await ?c (next_job b) (submit ?c name JobStop ?ev ?b1) = Some (r, b3)"
      and cl: "calls b3 = calls b @ [EvConnect ?c, ?ev, EvRecv ?c (next_job b) r]"
    using await_submit [of ?b1 ?c name JobStop ?ev] by auto
  have "Delete s path b = Some (None, conn_Close ?c b3)"
    using assms aw by (auto simp: Delete_def controller_simps split: prod.splits)
  with cl show ?thesis by blast
qed

text \<open>
  C7. When the stop request is accepted, \<open>Delete\<close> issues exactly one \<open>StopUnit\<close> request, in mode \<open>replace\<close>, for the last segment of the path as it is (no \<open>.slice\<close> is appended), consumes exactly one completion value and closes the connection before returning success.
\<close>

theorem Delete_accepted:
  assumes "bus_up b" and "snd (splitName path) = name"
    and "valid_unit_name name" and "units b name \<noteq> None"
  shows "\<exists>r b'. Delete s path b = Some (None, b') \<and>
           calls b' = calls b @ [EvConnect (next_conn b), EvStopUnit (next_conn b) name ''replace'',
             EvRecv (next_conn b) (next_job b) r, EvClose (next_conn b)] \<and>
           conns b' (next_conn b) = None"
  using Delete_accepted_close [OF assms, of s] by (auto simp: conn_Close_def)

theorem Delete_accepted_witness:
  "\<exists>r b'. Delete \<lparr>mu = False, root = ''/sys/fs/cgroup''\<rparr> ''mygroup/mycontainer.slice''
       ((bus_init [])\<lparr>units := [''mycontainer.slice'' \<mapsto> \<lparr>unit_props = [], unit_active = True\<rparr>]\<rparr>) =
      Some (None, b') \<and>
    calls b' = [EvConnect 0, EvStopUnit 0 ''mycontainer.slice'' ''replace'', EvRecv 0 0 r, EvClose 0] \<and>
    conns b' 0 = None"
  using Delete_accepted [of "(bus_init [])\<lparr>units := [''mycontainer.slice'' \<mapsto> \<lparr>unit_props = [], unit_active = True\<rparr>]\<rparr>"
      "''mygroup/mycontainer.slice''" "''mycontainer.slice''"]
  by (simp add: bus_init_def splitName_def Split_def TrimSuffix_def HasSuffix_def IsPathSeparator_def valid_unit_name_def unit_suffixes_def)

text \<open>
  C8. \<open>Delete\<close> always returns: its blocking receive is always answered.
\<close>

theorem Delete_returns: "Delete s path b \<noteq> None"
proof (cases "bus_up b \<and> valid_unit_name (snd (splitName path)) \<and> units b (snd (splitName path)) \<noteq> None")
  case True
  then show ?thesis using Delete_accepted_close [of b path _ s] by auto
next
  case rejected: False
  show ?thesis
  proof (cases "bus_up b")
    case True
    with rejected show ?thesis by (auto simp: Delete_def controller_simps split: prod.splits)
  next
    case False
    then show ?thesis by (simp add: Delete_def controller_simps)
  qed
qed

text \<open>
  C14. On success \<open>Systemd()\<close> returns the systemd controller first, rooted at the mount point, followed by the default subsystems in their order; the first subsystem is named \<open>systemd\<close>.
\<close>

theorem Systemd_order:
  assumes "Systemd (Inr mnt) defaults = Inr subs"
  shows "\<exists>ds. defaults mnt = Inr ds \<and>
           subs = SystemdSub \<lparr>mu = False, root = mnt\<rparr> # map OtherSub ds \<and>
           subsystem_name nm (hd subs) = ''systemd''"
  using assms by (auto simp: Systemd_def NewSystemd_def Name_def SystemdDbus_def split: sum.splits)

theorem Systemd_order_witness:
  "Systemd (Inr ''/sys/fs/cgroup'') (\<lambda>r. Inr [''cpu'', ''memory'']) =
     Inr [SystemdSub \<lparr>mu = False, root = ''/sys/fs/cgroup''\<rparr>, OtherSub ''cpu'', OtherSub ''memory''] \<and>
   subsystem_name id (hd [SystemdSub \<lparr>mu = False, root = ''/sys/fs/cgroup''\<rparr>, OtherSub ''cpu'', OtherSub ''memory'']) = ''systemd''"
proof -
  have eq: "Systemd (Inr ''/sys/fs/cgroup'') (\<lambda>r. Inr [''cpu'', ''memory'']) =
     Inr [SystemdSub \<lparr>mu = False, root = ''/sys/fs/cgroup''\<rparr>, OtherSub ''cpu'', OtherSub ''memory'']"
    by (simp add: Systemd_def NewSystemd_def)
  show ?thesis
    using eq Systemd_order [OF eq, of id] by simp
qed

text \<open>
  C16. \<open>Systemd()\<close> returns the mount-point error before anything else, and the error of \<open>defaults\<close> when the mount point was found.
\<close>

theorem Systemd_errors:
  "Systemd (Inl e) defaults = Inl e \<and>
   (defaults mnt = Inl e' \<longrightarrow> Systemd (Inr mnt) defaults = Inl e')"
  by (simp add: Systemd_def)


theorem Systemd_errors_witness:
  "Systemd (Inr ''/sys/fs/cgroup'') (\<lambda>r. (Inl (OtherError ''no cpu'') :: error + string list)) = Inl (OtherError ''no cpu'')"
  using Systemd_errors [of e "\<lambda>r. (Inl (OtherError ''no cpu'') :: error + string list)" "''/sys/fs/cgroup''" "OtherError ''no cpu''"]
  by simp
text \<open>
  Every property \<open>Create\<close> sends is well typed: systemd knows its name, and
  its value has the D-Bus signature systemd expects for that name (a string for
  \<open>Description\<close>, an array of strings for \<open>Wants\<close>, a boolean for the
  dependency, delegation and accounting switches built by \<open>newProperty\<close>).
\<close>

lemma create_properties_well_typed:
  "list_all property_well_typed (create_properties slice name)"
  by (simp add: create_properties_def PropDescription_def PropWants_def newProperty_def
      property_well_typed_def unit_property_sig_def)

section \<open>The bus invariant across a call\<close>

lemma wf_call_tail:
  assumes "wf_bus b" and "snd call = b1" and "wf_bus b \<Longrightarrow> wf_bus b1"
    and "(case call of
            (Inl err, b) \<Rightarrow> Some (Some err, conn_Close conn b)
          | (Inr ch, b) \<Rightarrow>
              (case await conn ch b of
                 None \<Rightarrow> None
               | Some (_, b) \<Rightarrow> Some (None, conn_Close conn b))) = Some (e, b')"
  shows "wf_bus b'"
proof -
  obtain r b2 where call: "call = (r, b2)" by fastforce
  then have w: "wf_bus b2" using assms(1-3) by simp
  show ?thesis
  proof (cases r)
    case (Inl err)
    then show ?thesis using assms(4) call w wf_conn_Close by auto
  next
    case (Inr ch)
    then obtain x b3 where "await conn ch b2 = Some (x, b3)" "b' = conn_Close conn b3"
      using assms(4) call by (auto split: option.splits)
    then show ?thesis using w wf_await wf_conn_Close by blast
  qed
qed

lemma Create_wf:
  assumes "wf_bus b" and "Create s path resources b = Some (e, b')"
  shows "wf_bus b'"
proof (cases "dbus_New b")
  case (Pair r b1)
  have w1: "wf_bus b1" using wf_dbus_New [OF assms(1)] Pair by simp
  show ?thesis
  proof (cases r)
    case (Inl err)
    then show ?thesis using assms(2) Pair w1 by (simp add: Create_def)
  next
    case (Inr conn)
    obtain slice name where sn: "splitName path = (slice, name)" by fastforce
    let ?call = "StartTransientUnit conn name ''replace'' (create_properties slice name) b1"
    show ?thesis
    proof (rule wf_call_tail [OF w1 refl])
      show "wf_bus (snd ?call)" using w1 by (rule wf_StartTransientUnit)
      show "(case ?call of
              (Inl err, b) \<Rightarrow> Some (Some err, conn_Close conn b)
            | (Inr ch, b) \<Rightarrow>
                (case await conn ch b of
                   None \<Rightarrow> None
                 | Some (_, b) \<Rightarrow> Some (None, conn_Close conn b))) = Some (e, b')"
        using assms(2) Pair Inr sn by (simp add: Create_def Let_def)
    qed
  qed
qed

lemma Delete_wf:
  assumes "wf_bus b" and "Delete s path b = Some (e, b')"
  shows "wf_bus b'"
proof (cases "dbus_New b")
  case (Pair r b1)
  have w1: "wf_bus b1" using wf_dbus_New [OF assms(1)] Pair by simp
  show ?thesis
  proof (cases r)
    case (Inl err)
    then show ?thesis using assms(2) Pair w1 by (simp add: Delete_def)
  next
    case (Inr conn)
    obtain slice name where sn: "splitName path = (slice, name)" by fastforce
    let ?call = "StopUnit conn name ''replace'' b1"
    show ?thesis
    proof (rule wf_call_tail [OF w1 refl])
      show "wf_bus (snd ?call)" using w1 by (rule wf_StopUnit)
      show "(case ?call of
              (Inl err, b) \<Rightarrow> Some (Some err, conn_Close conn b)
            | (Inr ch, b) \<Rightarrow>
                (case await conn ch b of
                   None \<Rightarrow> None
                 | Some (_, b) \<Rightarrow> Some (None, conn_Close conn b))) = Some (e, b')"
        using assms(2) Pair Inr sn by (simp add: Delete_def Let_def)
    qed
  qed
qed

lemma dom_call_tail:
  assumes "(case call of
              (Inl err, b) \<Rightarrow> Some (Some err, conn_Close conn b)
            | (Inr ch, b) \<Rightarrow>
                (case await conn ch b of
                   None \<Rightarrow> None
                 | Some (_, b) \<Rightarrow> Some (None, conn_Close conn b))) = Some (e, b')"
  shows "dom (conns b') = dom (conns (snd call)) - {conn}"
proof -
  obtain r b2 where call: "call = (r, b2)" by fastforce
  show ?thesis
  proof (cases r)
    case (Inl err)
    then have "b' = conn_Close conn b2" using assms call by simp
    then show ?thesis using call by simp
  next
    case (Inr ch)
    then obtain x b3 where "await conn ch b2 = Some (x, b3)" "b' = conn_Close conn b3"
      using assms call by (auto split: option.splits)
    then show ?thesis using call dom_await by simp
  qed
qed

lemma dom_New_tail:
  assumes "wf_bus b" and "dbus_New b = (Inr conn, b1)"
  shows "dom (conns b1) - {conn} = dom (conns b)"
  using dom_dbus_New [OF assms] by auto

text \<open>
  C22. \<open>Create\<close> leaks no connection: on a well-formed bus, whenever
  \<open>Create\<close> returns, on every branch, the set of open connections is the one
  before the call. A failed \<open>New\<close> opens none; otherwise the deferred
  \<open>conn.Close()\<close> closes the one \<open>New\<close> opened, after the refusal or after the
  receive, and no other connection is opened or closed.
\<close>

theorem Create_closes_connection:
  assumes wf: "wf_bus b" and c: "Create s path resources b = Some (e, b')"
  shows "dom (conns b') = dom (conns b)"
proof (cases "dbus_New b")
  case (Pair r b1)
  show ?thesis
  proof (cases r)
    case (Inl err)
    then show ?thesis using c Pair by (auto simp: Create_def dbus_New_def Let_def split: if_splits)
  next
    case (Inr conn)
    obtain slice name where sn: "splitName path = (slice, name)" by fastforce
    let ?call = "StartTransientUnit conn name ''replace'' (create_properties slice name) b1"
    have "dom (conns b') = dom (conns (snd ?call)) - {conn}"
      using c Pair Inr sn by (intro dom_call_tail) (simp add: Create_def Let_def)
    then show ?thesis using dom_New_tail [OF wf Pair [unfolded Inr]] dom_StartTransientUnit by simp
  qed
qed

theorem Create_closes_connection_witness:
  "wf_bus (bus_init []) \<and>
   (\<exists>e b'. Create \<lparr>mu = False, root = ''/sys/fs/cgroup''\<rparr> ''system.slice/foo.slice'' () (bus_init []) =
       Some (e, b') \<and> dom (conns b') = dom (conns (bus_init [])))"
proof -
  obtain b' where c: "Create \<lparr>mu = False, root = ''/sys/fs/cgroup''\<rparr> ''system.slice/foo.slice'' () (bus_init []) =
      Some (None, b')"
  proof -
    have i: "bus_up (bus_init [])" "units (bus_init []) n = None" "queue (bus_init []) = []"
        "failing (bus_init []) = []" for n
      by (simp_all add: bus_init_def)
    have sn: "splitName ''system.slice/foo.slice'' = (''system.slice'', ''foo.slice'')"
      by (simp add: splitName_def Split_def TrimSuffix_def HasSuffix_def IsPathSeparator_def)
    have v: "valid_unit_name ''foo.slice''" "valid_unit_name ''system.slice''"
      by (simp_all add: valid_unit_name_def unit_suffixes_def HasSuffix_def)
    have q: "\<forall>x \<in> set (queue (bus_init [])). job_num x < next_job (bus_init [])"
      using i(3) by simp
    show ?thesis
      using Create_outcome [OF q i(1) sn v i(2), of "\<lparr>mu = False, root = ''/sys/fs/cgroup''\<rparr>" "()"] that
      by blast
  qed
  show ?thesis using Create_closes_connection [OF wf_bus_init c] wf_bus_init c by blast
qed

text \<open>
  C23. \<open>Delete\<close> leaks no connection: on a well-formed bus, whenever
  \<open>Delete\<close> returns, on every branch, the set of open connections is the one
  before the call.
\<close>

theorem Delete_closes_connection:
  assumes wf: "wf_bus b" and d: "Delete s path b = Some (e, b')"
  shows "dom (conns b') = dom (conns b)"
proof (cases "dbus_New b")
  case (Pair r b1)
  show ?thesis
  proof (cases r)
    case (Inl err)
    then show ?thesis using d Pair by (auto simp: Delete_def dbus_New_def Let_def split: if_splits)
  next
    case (Inr conn)
    obtain slice name where sn: "splitName path = (slice, name)" by fastforce
    let ?call = "StopUnit conn name ''replace'' b1"
    have "dom (conns b') = dom (conns (snd ?call)) - {conn}"
      using d Pair Inr sn by (intro dom_call_tail) (simp add: Delete_def Let_def)
    then show ?thesis using dom_New_tail [OF wf Pair [unfolded Inr]] dom_StopUnit by simp
  qed
qed

theorem Delete_closes_connection_witness:
  "wf_bus (bus_init []) \<and>
   (\<exists>e b'. Delete \<lparr>mu = False, root = ''/sys/fs/cgroup''\<rparr> ''system.slice/foo.slice'' (bus_init []) =
       Some (e, b') \<and> dom (conns b') = dom (conns (bus_init [])))"
proof -
  have c: "Delete \<lparr>mu = False, root = ''/sys/fs/cgroup''\<rparr> ''system.slice/foo.slice'' (bus_init []) =
      Some (Some (NoSuchUnit ''foo.slice''), conn_Close 0 ((bus_init [])\<lparr>conns := [0 \<mapsto> Map.empty],
        next_conn := 1, calls := [EvConnect 0, EvStopUnit 0 ''foo.slice'' ''replace'']\<rparr>))"
    by (simp add: Delete_def dbus_New_def StopUnit_def bus_init_def splitName_def Split_def TrimSuffix_def
        HasSuffix_def IsPathSeparator_def valid_unit_name_def unit_suffixes_def valid_job_mode_def Let_def)
  show ?thesis using Delete_closes_connection [OF wf_bus_init c] wf_bus_init c by blast
qed

end
