(* ===== verification/Concurrent.thy ===== *)
theory Concurrent
  imports Controller
begin

text \<open>
  Concurrent calls of \<open>Create\<close> and \<open>Delete\<close> on one service manager. Each call
  is a thread that runs the statements of its method one at a time over the
  shared bus; the manager runs queued jobs in steps of its own. A thread's program
  counter \<open>pc\<close> says where it is: before \<open>systemdDbus.New()\<close>, connected and
  before the request, blocked on \<open><-ch\<close>, or returned with its error.
\<close>

section \<open>Threads and the system\<close>

datatype call = CallCreate string | CallDelete string

datatype pc = PcStart | PcConn conn_id | PcWait conn_id job_id | PcDone "error option"

text \<open>The request of a call: lines 66--77 of \<open>Create\<close>, lines 91--93 of \<open>Delete\<close>.\<close>

fun call_request :: "call \<Rightarrow> conn_id \<Rightarrow> bus \<Rightarrow> (error + job_id) \<times> bus" where
  "call_request (CallCreate path) conn b =
     (let (slice, name) = splitName path
      in StartTransientUnit conn name ''replace'' (create_properties slice name) b)"
| "call_request (CallDelete path) conn b =
     (let (_, name) = splitName path in StopUnit conn name ''replace'' b)"

text \<open>
  One statement of a thread: \<open>New()\<close> (returning its error), the request
  (returning its error after the deferred \<open>Close\<close>), and the receive, which is
  enabled only once a value has been delivered on the channel; it returns
  \<open>nil\<close> after the deferred \<open>Close\<close>. \<open>None\<close>: the thread cannot move.
\<close>

fun client_step :: "call \<Rightarrow> pc \<Rightarrow> bus \<Rightarrow> (pc \<times> bus) option" where
  "client_step k PcStart b =
     (case dbus_New b of
        (Inl err, b) \<Rightarrow> Some (PcDone (Some err), b)
      | (Inr conn, b) \<Rightarrow> Some (PcConn conn, b))"
| "client_step k (PcConn conn) b =
     (case call_request k conn b of
        (Inl err, b) \<Rightarrow> Some (PcDone (Some err), conn_Close conn b)
      | (Inr ch, b) \<Rightarrow> Some (PcWait conn ch, b))"
| "client_step k (PcWait conn ch) b =
     (case recv conn ch b of
        None \<Rightarrow> None
      | Some (_, b) \<Rightarrow> Some (PcDone None, conn_Close conn b))"
| "client_step k (PcDone e) b = None"

type_synonym sys = "(call \<times> pc) list \<times> bus"

inductive sys_step :: "sys \<Rightarrow> sys \<Rightarrow> bool" where
  thread: "i < length ts \<Longrightarrow> ts ! i = (k, p) \<Longrightarrow> client_step k p b = Some (p', b') \<Longrightarrow>
           sys_step (ts, b) (ts[i := (k, p')], b')"
| manager: "queue b \<noteq> [] \<Longrightarrow> sys_step (ts, b) (ts, run_job b)"

definition sys_init :: "call list \<Rightarrow> unit_name list \<Rightarrow> sys" where
  "sys_init ks fails = (map (\<lambda>k. (k, PcStart)) ks, bus_init fails)"

text \<open>
  An explicit scheduler: a schedule names, step by step, the thread that moves or
  the manager. \<open>sched_step\<close> is \<open>None\<close> when the named party cannot move;
  \<open>sys_run\<close> runs a whole schedule, so that an interleaving can be evaluated.
\<close>

datatype sched = Thread nat | Manager

fun sched_step :: "sched \<Rightarrow> sys \<Rightarrow> sys option" where
  "sched_step (Thread i) (ts, b) =
     (if i < length ts then
        (case ts ! i of
           (k, p) \<Rightarrow> (case client_step k p b of
                        Some (p', b') \<Rightarrow> Some (ts[i := (k, p')], b')
                      | None \<Rightarrow> None))
      else None)"
| "sched_step Manager (ts, b) = (if queue b = [] then None else Some (ts, run_job b))"

fun sys_run :: "sched list \<Rightarrow> sys \<Rightarrow> sys option" where
  "sys_run [] S = Some S"
| "sys_run (x # xs) S = (case sched_step x S of None \<Rightarrow> None | Some S' \<Rightarrow> sys_run xs S')"

definition all_returned :: "sys \<Rightarrow> bool" where
  "all_returned S \<longleftrightarrow> list_all (\<lambda>t. case snd t of PcDone e \<Rightarrow> True | _ \<Rightarrow> False) (fst S)"

text \<open>
  The invariant of the concurrent system: the bus is well formed, each thread's
  connection is open and, while it waits, its channel is registered, and no two
  threads share a connection.
\<close>

fun pc_ok :: "bus \<Rightarrow> pc \<Rightarrow> bool" where
  "pc_ok b PcStart = True"
| "pc_ok b (PcConn conn) = (conns b conn \<noteq> None)"
| "pc_ok b (PcWait conn ch) = (\<exists>l. conns b conn = Some l \<and> l ch \<noteq> None)"
| "pc_ok b (PcDone e) = True"

fun pc_conn :: "pc \<Rightarrow> conn_id option" where
  "pc_conn (PcConn conn) = Some conn"
| "pc_conn (PcWait conn ch) = Some conn"
| "pc_conn _ = None"

text \<open>The connections held by threads that have connected and not yet returned.\<close>

definition live_conns :: "(call \<times> pc) list \<Rightarrow> conn_id set" where
  "live_conns ts = set (List.map_filter (\<lambda>t. pc_conn (snd t)) ts)"

definition sys_inv :: "sys \<Rightarrow> bool" where
  "sys_inv S \<longleftrightarrow>
     wf_bus (snd S) \<and>
     (\<forall>i < length (fst S). pc_ok (snd S) (snd (fst S ! i))) \<and>
     (\<forall>i < length (fst S). \<forall>j < length (fst S).
        pc_conn (snd (fst S ! i)) \<noteq> None \<longrightarrow>
        pc_conn (snd (fst S ! i)) = pc_conn (snd (fst S ! j)) \<longrightarrow> i = j)"

text \<open>A connection keeps its registered channels from one state to another.\<close>

definition conns_keep :: "bus \<Rightarrow> bus \<Rightarrow> conn_id \<Rightarrow> bool" where
  "conns_keep b b' c \<longleftrightarrow>
     (\<forall>l. conns b c = Some l \<longrightarrow> (\<exists>l'. conns b' c = Some l' \<and> (\<forall>k. l k \<noteq> None \<longrightarrow> l' k \<noteq> None)))"

text \<open>
  Termination measure: each thread has at most three statements left, the
  request adds at most one job, and the manager removes one per step.
\<close>

fun pc_weight :: "pc \<Rightarrow> nat" where
  "pc_weight PcStart = 3"
| "pc_weight (PcConn conn) = 2"
| "pc_weight (PcWait conn ch) = 1"
| "pc_weight (PcDone e) = 0"

definition sys_measure :: "sys \<Rightarrow> nat" where
  "sys_measure S = 2 * sum_list (map (pc_weight \<circ> snd) (fst S)) + length (queue (snd S))"

section \<open>A thread alone implements the sequential method\<close>

lemma manager_star:
  "await c j b = Some (r, b2) \<Longrightarrow>
   \<exists>b1. sys_step\<^sup>*\<^sup>* (ts, b) (ts, b1) \<and> recv c j b1 = Some (r, b2)"
proof (induction c j b rule: await.induct)
  case (1 c j b)
  show ?case
  proof (cases "recv c j b")
    case (Some rb)
    then show ?thesis using "1.prems" by (auto simp: await.simps [of c j b])
  next
    case None
    then have q: "queue b \<noteq> []" and a: "await c j (run_job b) = Some (r, b2)"
      using "1.prems" by (simp_all add: await.simps [of c j b] split: if_splits)
    obtain b1 where "sys_step\<^sup>*\<^sup>* (ts, run_job b) (ts, b1)" "recv c j b1 = Some (r, b2)"
      using "1.IH" [OF None q a] by blast
    moreover have "sys_step (ts, b) (ts, run_job b)" using q by (rule manager)
    ultimately show ?thesis by (meson converse_rtranclp_into_rtranclp)
  qed
qed

lemma thread_step:
  "client_step k p b = Some (p', b') \<Longrightarrow> sys_step ([(k, p)], b) ([(k, p')], b')"
  using thread [of 0 "[(k, p)]" k p b p' b'] by simp

lemma call_tail_star:
  assumes "(case call_request k conn b of
              (Inl err, b) \<Rightarrow> Some (Some err, conn_Close conn b)
            | (Inr ch, b) \<Rightarrow>
                (case await conn ch b of
                   None \<Rightarrow> None
                 | Some (_, b) \<Rightarrow> Some (None, conn_Close conn b))) = Some (e, b')"
  shows "sys_step\<^sup>*\<^sup>* ([(k, PcConn conn)], b) ([(k, PcDone e)], b')"
proof (cases "call_request k conn b")
  case (Pair r b1)
  show ?thesis
  proof (cases r)
    case (Inl err)
    then show ?thesis using assms Pair thread_step [of k "PcConn conn" b] by auto
  next
    case (Inr ch)
    then obtain x b2 where aw: "await conn ch b1 = Some (x, b2)" and e: "e = None" "b' = conn_Close conn b2"
      using assms Pair by (auto split: option.splits)
    have s1: "sys_step ([(k, PcConn conn)], b) ([(k, PcWait conn ch)], b1)"
      using Pair Inr thread_step [of k "PcConn conn" b] by simp
    obtain b3 where s2: "sys_step\<^sup>*\<^sup>* ([(k, PcWait conn ch)], b1) ([(k, PcWait conn ch)], b3)"
        and rv: "recv conn ch b3 = Some (x, b2)"
      using manager_star [OF aw] by blast
    have s3: "sys_step ([(k, PcWait conn ch)], b3) ([(k, PcDone e)], b')"
      using rv e thread_step [of k "PcWait conn ch" b3] by simp
    show ?thesis using s1 s2 s3 by (meson converse_rtranclp_into_rtranclp rtranclp.rtrancl_into_rtrancl)
  qed
qed

lemma call_star:
  assumes "(case dbus_New b of
              (Inl err, b) \<Rightarrow> Some (Some err, b)
            | (Inr conn, b) \<Rightarrow>
                (case call_request k conn b of
                   (Inl err, b) \<Rightarrow> Some (Some err, conn_Close conn b)
                 | (Inr ch, b) \<Rightarrow>
                     (case await conn ch b of
                        None \<Rightarrow> None
                      | Some (_, b) \<Rightarrow> Some (None, conn_Close conn b)))) = Some (e, b')"
  shows "sys_step\<^sup>*\<^sup>* ([(k, PcStart)], b) ([(k, PcDone e)], b')"
proof (cases "dbus_New b")
  case (Pair r b1)
  show ?thesis
  proof (cases r)
    case (Inl err)
    then show ?thesis using assms Pair thread_step [of k PcStart b] by auto
  next
    case (Inr conn)
    have "sys_step ([(k, PcStart)], b) ([(k, PcConn conn)], b1)"
      using Pair Inr thread_step [of k PcStart b] by simp
    moreover have "sys_step\<^sup>*\<^sup>* ([(k, PcConn conn)], b1) ([(k, PcDone e)], b')"
      using assms Pair Inr by (intro call_tail_star) simp
    ultimately show ?thesis by (meson converse_rtranclp_into_rtranclp)
  qed
qed

section \<open>The system invariant\<close>

lemma conns_keep_refl: "conns_keep b b c"
  by (auto simp: conns_keep_def)

lemma conns_keep_trans: "conns_keep b1 b2 c \<Longrightarrow> conns_keep b2 b3 c \<Longrightarrow> conns_keep b1 b3 c"
  unfolding conns_keep_def by metis

lemma pc_ok_keep:
  "pc_ok b p \<Longrightarrow> (\<And>c. pc_conn p = Some c \<Longrightarrow> conns_keep b b' c) \<Longrightarrow> pc_ok b' p"
  by (cases p) (auto simp: conns_keep_def)

lemma keep_run_job: "conns_keep b (run_job b) c"
proof (cases "queue b")
  case Nil
  then show ?thesis by (simp add: run_job_def conns_keep_refl)
next
  case (Cons jb js)
  show ?thesis unfolding conns_keep_def
  proof (intro allI impI)
    fix l assume l: "conns b c = Some l"
    have "conns (run_job b) c = deliver (job_num jb) (fst (job_outcome b jb)) (conns b) c"
      using Cons by (simp add: run_job_Cons)
    moreover obtain l' where d: "deliver (job_num jb) (fst (job_outcome b jb)) (conns b) c = Some l'"
      using l by (simp add: deliver_def)
    moreover obtain l0 where "conns b c = Some l0" "\<And>k. l' k = None \<longleftrightarrow> l0 k = None"
      using deliver_listener [OF d] by blast
    then have "\<forall>k. l k \<noteq> None \<longrightarrow> l' k \<noteq> None" using l by simp
    ultimately show "\<exists>l'. conns (run_job b) c = Some l' \<and> (\<forall>k. l k \<noteq> None \<longrightarrow> l' k \<noteq> None)"
      by simp
  qed
qed

lemma keep_cancel_jobs:
  "cs c = Some l \<Longrightarrow> \<exists>l'. cancel_jobs name q cs c = Some l' \<and> (\<forall>k. l k \<noteq> None \<longrightarrow> l' k \<noteq> None)"
proof (induction q arbitrary: cs l)
  case Nil
  then show ?case by simp
next
  case (Cons x q)
  obtain l1 where "deliver (job_num x) ''canceled'' cs c = Some l1" "\<forall>k. l k \<noteq> None \<longrightarrow> l1 k \<noteq> None"
    using Cons.prems by (auto simp: deliver_def)
  then show ?case using Cons.IH [of cs l] Cons.IH [of "deliver (job_num x) ''canceled'' cs" l1] Cons.prems
    by (cases "job_unit x = name") fastforce+
qed

lemma keep_enqueue_job: "conns_keep b (snd (enqueue_job c0 name kind mode b)) c"
  unfolding conns_keep_def
proof (intro allI impI)
  fix l assume l: "conns b c = Some l"
  show "\<exists>l'. conns (snd (enqueue_job c0 name kind mode b)) c = Some l' \<and> (\<forall>k. l k \<noteq> None \<longrightarrow> l' k \<noteq> None)"
  proof (cases "mode = ''fail'' \<and> (\<exists>j \<in> set (queue b). job_unit j = name)")
    case True
    then show ?thesis using l by (simp add: enqueue_job_def)
  next
    case False
    obtain l1 where l1: "cancel_jobs name (queue b) (conns b) c = Some l1" "\<forall>k. l k \<noteq> None \<longrightarrow> l1 k \<noteq> None"
      using keep_cancel_jobs [of "conns b" c l name "queue b"] l by blast
    have "conns (snd (enqueue_job c0 name kind mode b)) =
          register c0 (next_job b) (cancel_jobs name (queue b) (conns b))"
      by (simp only: enqueue_job_def if_not_P [OF False] Let_def snd_conv bus.select_convs
          bus.update_convs) simp
    then show ?thesis using l1 by (cases "c = c0") (auto simp: register_def simp del: not_None_eq)
  qed
qed

lemma keep_StartTransientUnit: "conns_keep b (snd (StartTransientUnit c0 name mode props b)) c"
proof -
  define b1 where "b1 = b\<lparr>calls := calls b @ [EvStartTransientUnit c0 name mode props]\<rparr>"
  have k1: "conns_keep b b1 c" by (simp add: b1_def conns_keep_def)
  have "snd (StartTransientUnit c0 name mode props b) = b1 \<or>
        conns (snd (StartTransientUnit c0 name mode props b)) = conns (snd (enqueue_job c0 name JobStart mode b1))"
    by (auto simp: StartTransientUnit_def b1_def [symmetric] Let_def split: prod.splits sum.splits)
  moreover have "conns_keep b1 (snd (enqueue_job c0 name JobStart mode b1)) c" by (rule keep_enqueue_job)
  ultimately show ?thesis using k1 conns_keep_refl
    by (auto simp: conns_keep_def)
qed
lemma enqueue_job_Inr:
  "enqueue_job c n kind m b = (Inr j, b') \<Longrightarrow>
   j = next_job b \<and> conns b' = register c j (cancel_jobs n (queue b) (conns b)) \<and>
   queue b' = filter (\<lambda>x. job_unit x \<noteq> n) (queue b) @ [\<lparr>job_num = j, job_unit = n, job_kind = kind\<rparr>]"
  by (simp add: enqueue_job_def Let_def split: if_splits) (auto)

lemma StartTransientUnit_Inr:
  "StartTransientUnit c n m ps b = (Inr j, b') \<Longrightarrow>
   j = next_job b \<and> conns b' = register c j (cancel_jobs n (queue b) (conns b)) \<and>
   queue b' = filter (\<lambda>x. job_unit x \<noteq> n) (queue b) @ [\<lparr>job_num = j, job_unit = n, job_kind = JobStart\<rparr>]"
  by (auto simp: StartTransientUnit_def Let_def split: if_splits prod.splits sum.splits
      dest!: enqueue_job_Inr)

lemma StopUnit_Inr:
  "StopUnit c n m b = (Inr j, b') \<Longrightarrow>
   j = next_job b \<and> conns b' = register c j (cancel_jobs n (queue b) (conns b)) \<and>
   queue b' = filter (\<lambda>x. job_unit x \<noteq> n) (queue b) @ [\<lparr>job_num = j, job_unit = n, job_kind = JobStop\<rparr>]"
  by (auto simp: StopUnit_def Let_def split: if_splits dest!: enqueue_job_Inr)

lemma StartTransientUnit_Inl:
  "StartTransientUnit c n m ps b = (Inl e, b') \<Longrightarrow> conns b' = conns b \<and> queue b' = queue b"
  by (auto simp: StartTransientUnit_def Let_def split: if_splits prod.splits sum.splits
      dest!: enqueue_job_Inl)

lemma StopUnit_Inl:
  "StopUnit c n m b = (Inl e, b') \<Longrightarrow> conns b' = conns b \<and> queue b' = queue b"
  by (auto simp: StopUnit_def Let_def split: if_splits dest!: enqueue_job_Inl)
lemma call_request_Inr:
  "call_request k c b = (Inr j, b') \<Longrightarrow>
   \<exists>n kind. j = next_job b \<and> conns b' = register c j (cancel_jobs n (queue b) (conns b)) \<and>
     queue b' = filter (\<lambda>x. job_unit x \<noteq> n) (queue b) @ [\<lparr>job_num = j, job_unit = n, job_kind = kind\<rparr>]"
  by (cases k) (auto simp: Let_def split: prod.splits dest!: StartTransientUnit_Inr StopUnit_Inr)

lemma call_request_Inl:
  "call_request k c b = (Inl e, b') \<Longrightarrow> conns b' = conns b \<and> queue b' = queue b"
  by (cases k) (auto simp: Let_def split: prod.splits dest!: StartTransientUnit_Inl StopUnit_Inl)

lemma wf_call_request: "wf_bus b \<Longrightarrow> wf_bus (snd (call_request k c b))"
  by (cases k) (simp_all add: Let_def wf_StartTransientUnit wf_StopUnit split: prod.splits)

lemma keep_register_cancel:
  "conns b' = register c0 j (cancel_jobs n q (conns b)) \<Longrightarrow> conns_keep b b' c"
  unfolding conns_keep_def
proof (intro allI impI)
  fix l assume eq: "conns b' = register c0 j (cancel_jobs n q (conns b))" and l: "conns b c = Some l"
  obtain l1 where "cancel_jobs n q (conns b) c = Some l1" "\<forall>k. l k \<noteq> None \<longrightarrow> l1 k \<noteq> None"
    using keep_cancel_jobs [of "conns b" c l n q] l by blast
  then show "\<exists>l'. conns b' c = Some l' \<and> (\<forall>k. l k \<noteq> None \<longrightarrow> l' k \<noteq> None)"
    using eq by (cases "c = c0") (auto simp: register_def simp del: not_None_eq)
qed

lemma keep_call_request: "conns_keep b (snd (call_request k c0 b)) c"
proof (cases "call_request k c0 b")
  case (Pair r b')
  show ?thesis
  proof (cases r)
    case (Inl e)
    then show ?thesis using Pair call_request_Inl [of k c0 b e b'] by (simp add: conns_keep_def)
  next
    case (Inr j)
    then show ?thesis using Pair call_request_Inr [of k c0 b j b'] keep_register_cancel by auto
  qed
qed

lemma keep_close: "c \<noteq> c0 \<Longrightarrow> conns_keep b (conn_Close c0 b) c"
  by (simp add: conns_keep_def conn_Close_def)

lemma keep_recv: "c \<noteq> c0 \<Longrightarrow> recv c0 j b = Some (r, b') \<Longrightarrow> conns_keep b b' c"
  by (auto simp: conns_keep_def recv_def split: option.splits)

lemma keep_New: "wf_bus b \<Longrightarrow> conns_keep b (snd (dbus_New b)) c"
  by (auto simp: conns_keep_def dbus_New_def Let_def dest: wf_busD(5))
lemma sys_invD:
  assumes "sys_inv (ts, b)"
  shows "wf_bus b" and "j < length ts \<Longrightarrow> pc_ok b (snd (ts ! j))"
    and "j < length ts \<Longrightarrow> j' < length ts \<Longrightarrow> pc_conn (snd (ts ! j)) = Some c \<Longrightarrow>
         pc_conn (snd (ts ! j')) = Some c \<Longrightarrow> j = j'"
proof -
  show "wf_bus b" using assms by (simp add: sys_inv_def)
  show "j < length ts \<Longrightarrow> pc_ok b (snd (ts ! j))" using assms by (simp add: sys_inv_def)
  show "j < length ts \<Longrightarrow> j' < length ts \<Longrightarrow> pc_conn (snd (ts ! j)) = Some c \<Longrightarrow>
        pc_conn (snd (ts ! j')) = Some c \<Longrightarrow> j = j'"
    using assms unfolding sys_inv_def fst_conv snd_conv by (metis option.distinct(1))
qed

lemma sys_inv_update:
  assumes inv: "sys_inv (ts, b)" and i: "i < length ts" and p: "snd (ts ! i) = p"
    and W: "wf_bus b'"
    and K: "\<And>j c. j < length ts \<Longrightarrow> j \<noteq> i \<Longrightarrow> pc_conn (snd (ts ! j)) = Some c \<Longrightarrow> conns_keep b b' c"
    and P: "pc_ok b' p'"
    and C: "\<And>c. pc_conn p' = Some c \<Longrightarrow>
              pc_conn p = Some c \<or> (\<forall>j < length ts. pc_conn (snd (ts ! j)) \<noteq> Some c)"
  shows "sys_inv (ts[i := (k, p')], b')"
  unfolding sys_inv_def fst_conv snd_conv
proof (intro conjI allI impI)
  show "wf_bus b'" by (rule W)
next
  fix j assume j: "j < length (ts[i := (k, p')])"
  show "pc_ok b' (snd (ts[i := (k, p')] ! j))"
  proof (cases "j = i")
    case True
    then show ?thesis using P i by simp
  next
    case False
    have jl: "j < length ts" using j by simp
    have "pc_ok b' (snd (ts ! j))"
      using sys_invD(2) [OF inv jl] K [OF jl False] by (rule pc_ok_keep)
    then show ?thesis using False by simp
  qed
next
  fix j j' assume j: "j < length (ts[i := (k, p')])" and j': "j' < length (ts[i := (k, p')])"
    and some: "pc_conn (snd (ts[i := (k, p')] ! j)) \<noteq> None"
    and eq: "pc_conn (snd (ts[i := (k, p')] ! j)) = pc_conn (snd (ts[i := (k, p')] ! j'))"
  obtain c where c: "pc_conn (snd (ts[i := (k, p')] ! j)) = Some c" using some by blast
  have old: "\<And>m. m < length ts \<Longrightarrow> m \<noteq> i \<Longrightarrow> snd (ts[i := (k, p')] ! m) = snd (ts ! m)" by simp
  have new: "snd (ts[i := (k, p')] ! i) = p'" using i by simp
  have fresh: "False" if "pc_conn p' = Some c" "m < length ts" "m \<noteq> i" "pc_conn (snd (ts ! m)) = Some c"
    for m
  proof -
    from C [OF that(1)] show False
    proof
      assume "pc_conn p = Some c"
      then have "m = i" using sys_invD(3) [OF inv that(2) i] that(4) p by blast
      then show False using that(3) by simp
    next
      assume "\<forall>j < length ts. pc_conn (snd (ts ! j)) \<noteq> Some c"
      then show False using that(2,4) by blast
    qed
  qed
  have c': "pc_conn (snd (ts[i := (k, p')] ! j')) = Some c" by (metis c eq)
  have jl: "j < length ts" and jl': "j' < length ts" using j j' by simp_all
  show "j = j'"
  proof (cases "j = i")
    case True
    show ?thesis
    proof (rule ccontr)
      assume "j \<noteq> j'"
      then have "pc_conn (snd (ts ! j')) = Some c" using c' old [OF jl'] True by simp
      moreover have "pc_conn p' = Some c" using c new True by simp
      ultimately show False using fresh jl' True \<open>j \<noteq> j'\<close> by blast
    qed
  next
    case False
    then have cj: "pc_conn (snd (ts ! j)) = Some c" using c old [OF jl] by simp
    show ?thesis
    proof (cases "j' = i")
      case True
      then have "pc_conn p' = Some c" using c' new by simp
      then show ?thesis using fresh jl False cj by blast
    next
      case False
      then have "pc_conn (snd (ts ! j')) = Some c" using c' old [OF jl'] by simp
      then show ?thesis using sys_invD(3) [OF inv jl jl' cj] by simp
    qed
  qed
qed
lemma thread_inv:
  assumes inv: "sys_inv (ts, b)" and i: "i < length ts" and t: "ts ! i = (k, p)"
    and st: "client_step k p b = Some (p', b')"
  shows "sys_inv (ts[i := (k, p')], b')"
proof -
  have wf: "wf_bus b" using inv by (rule sys_invD(1))
  have okp: "pc_ok b p" using sys_invD(2) [OF inv i] t by simp
  have p: "snd (ts ! i) = p" using t by simp
  have other: "c \<noteq> c0" if "pc_conn p = Some c0" "j < length ts" "j \<noteq> i" "pc_conn (snd (ts ! j)) = Some c"
    for j c c0
    using sys_invD(3) [OF inv that(2) i, of c] that p by auto
  show ?thesis
  proof (cases p)
    case PcStart
    show ?thesis
    proof (cases "bus_up b")
      case False
      then have e: "p' = PcDone (Some ConnectionError)" "b' = b"
        using st PcStart by (simp_all add: dbus_New_def)
      show ?thesis unfolding e
        by (rule sys_inv_update [OF inv i p wf]) (simp_all add: conns_keep_refl)
    next
      case True
      let ?c = "next_conn b"
      have e: "p' = PcConn ?c" "b' = snd (dbus_New b)"
        using st PcStart True by (simp_all add: dbus_New_def Let_def)
      have fresh: "pc_conn (snd (ts ! j)) \<noteq> Some ?c" if "j < length ts" for j
      proof
        assume "pc_conn (snd (ts ! j)) = Some ?c"
        then have "conns b ?c \<noteq> None" using sys_invD(2) [OF inv that]
          by (cases "snd (ts ! j)") auto
        then show False using wf_busD(5) [OF wf] by blast
      qed
      show ?thesis
      proof (rule sys_inv_update [OF inv i p])
        show "wf_bus b'" using e wf_dbus_New [OF wf] by simp
        show "conns_keep b b' c" for c using e keep_New [OF wf] by simp
        show "pc_ok b' p'" using e True by (simp add: dbus_New_def Let_def)
        show "pc_conn p' = Some c \<Longrightarrow> pc_conn p = Some c \<or> (\<forall>j < length ts. pc_conn (snd (ts ! j)) \<noteq> Some c)"
          for c using e fresh by simp
      qed
    qed
  next
    case (PcConn c0)
    obtain r b1 where req: "call_request k c0 b = (r, b1)" by fastforce
    have wf1: "wf_bus b1" using wf_call_request [OF wf, of k c0] req by simp
    have k1: "conns_keep b b1 c" for c using keep_call_request [of b k c0 c] req by simp
    show ?thesis
    proof (cases r)
      case (Inl e)
      then have e: "p' = PcDone (Some e)" "b' = conn_Close c0 b1" using st PcConn req by simp_all
      show ?thesis
      proof (rule sys_inv_update [OF inv i p])
        show "wf_bus b'" using e wf1 wf_conn_Close by simp
        show "conns_keep b b' c" if "j < length ts" "j \<noteq> i" "pc_conn (snd (ts ! j)) = Some c" for j c
          using e conns_keep_trans [OF k1 keep_close [OF other [OF _ that]]] PcConn by simp
      qed (simp_all add: e)
    next
      case (Inr ch)
      then have e: "p' = PcWait c0 ch" "b' = b1" using st PcConn req by simp_all
      obtain n kind where reg: "ch = next_job b" "conns b1 = register c0 ch (cancel_jobs n (queue b) (conns b))"
        using call_request_Inr [of k c0 b ch b1] req Inr by blast
      obtain l where l: "conns b c0 = Some l" using okp PcConn by auto
      obtain l1 where "cancel_jobs n (queue b) (conns b) c0 = Some l1"
        using keep_cancel_jobs [of "conns b" c0 l n "queue b"] l by blast
      then have ok': "pc_ok b' p'" using e reg by (simp add: register_def)
      show ?thesis
        by (rule sys_inv_update [OF inv i p]) (use wf1 k1 e PcConn ok' in simp_all)
    qed
  next
    case (PcWait c0 ch)
    obtain r b1 where rv: "recv c0 ch b = Some (r, b1)" and e: "p' = PcDone None" "b' = conn_Close c0 b1"
      using st PcWait by (auto split: option.splits)
    show ?thesis
    proof (rule sys_inv_update [OF inv i p])
      show "wf_bus b'" using e wf_recv [OF wf rv] wf_conn_Close by simp
      show "conns_keep b b' c" if "j < length ts" "j \<noteq> i" "pc_conn (snd (ts ! j)) = Some c" for j c
        using e conns_keep_trans [OF keep_recv [OF _ rv] keep_close] other [OF _ that] PcWait by simp
    qed (simp_all add: e)
  next
    case (PcDone x)
    then show ?thesis using st by simp
  qed
qed

lemma manager_inv:
  assumes "sys_inv (ts, b)"
  shows "sys_inv (ts, run_job b)"
proof -
  show ?thesis
    unfolding sys_inv_def fst_conv snd_conv
  proof (intro conjI allI impI)
    show "wf_bus (run_job b)" using wf_run_job [OF sys_invD(1) [OF assms]] .
    show "pc_ok (run_job b) (snd (ts ! j))" if "j < length ts" for j
      using pc_ok_keep [OF sys_invD(2) [OF assms that] keep_run_job] .
    show "i = j" if "i < length ts" "j < length ts" "pc_conn (snd (ts ! i)) \<noteq> None"
        "pc_conn (snd (ts ! i)) = pc_conn (snd (ts ! j))" for i j
      using sys_invD(3) [OF assms that(1,2)] that(3,4) by auto
  qed
qed
lemma sys_step_inv: "sys_step S S' \<Longrightarrow> sys_inv S \<Longrightarrow> sys_inv S'"
proof (induction rule: sys_step.induct)
  case (thread i ts k p b p' b')
  then show ?case using thread_inv by blast
next
  case (manager b ts)
  then show ?case using manager_inv by blast
qed

lemma sys_star_inv: "sys_step\<^sup>*\<^sup>* S S' \<Longrightarrow> sys_inv S \<Longrightarrow> sys_inv S'"
  by (induction rule: rtranclp_induct) (auto intro: sys_step_inv)

lemma sys_inv_init: "sys_inv (sys_init ks fails)"
  by (simp add: sys_inv_def sys_init_def wf_bus_init)


section \<open>Progress, termination and the scheduler\<close>

lemma sys_progress:
  assumes inv: "sys_inv (ts, b)"
  shows "(\<forall>t \<in> set ts. \<exists>e. snd t = PcDone e) \<or> (\<exists>S'. sys_step (ts, b) S')"
proof (cases "\<forall>t \<in> set ts. \<exists>e. snd t = PcDone e")
  case False
  then obtain i where i: "i < length ts" and nd: "\<forall>e. snd (ts ! i) \<noteq> PcDone e"
    by (auto simp: in_set_conv_nth)
  obtain k p where t: "ts ! i = (k, p)" by fastforce
  have ok: "pc_ok b p" using sys_invD(2) [OF inv i] t by simp
  have "\<exists>S'. sys_step (ts, b) S'"
  proof (cases p)
    case PcStart
    have "client_step k p b \<noteq> None" using PcStart by (simp split: prod.splits sum.splits)
    then obtain p' b' where "client_step k p b = Some (p', b')" by auto
    then show ?thesis using thread [OF i t] by blast
  next
    case (PcConn c)
    have "client_step k p b \<noteq> None" using PcConn by (simp split: prod.splits sum.splits)
    then obtain p' b' where "client_step k p b = Some (p', b')" by auto
    then show ?thesis using thread [OF i t] by blast
  next
    case (PcWait c ch)
    then obtain l where l: "conns b c = Some l" "l ch \<noteq> None" using ok by auto
    show ?thesis
    proof (cases "l ch")
      case (Some v)
      show ?thesis
      proof (cases v)
        case None
        then have "ch \<in> set (map job_num (queue b))"
          using wf_busD(7) [OF sys_invD(1) [OF inv] l(1)] Some by simp
        then have "queue b \<noteq> []" by auto
        then show ?thesis using manager by blast
      next
        case (Some r)
        then have "client_step k p b = Some (PcDone None, conn_Close c (b\<lparr>conns := (conns b)(c \<mapsto> l(ch := None)),
                     calls := calls b @ [EvRecv c ch r]\<rparr>))"
          using PcWait l \<open>l ch = Some v\<close> by (simp add: recv_delivered)
        then show ?thesis using thread [OF i t] by blast
      qed
    qed (use l in simp)
  next
    case (PcDone e)
    then show ?thesis using nd t by simp
  qed
  then show ?thesis by blast
qed simp

lemma sum_list_update_nat:
  "i < length xs \<Longrightarrow> sum_list (xs[i := x]) + xs ! i = sum_list xs + (x :: nat)"
  by (induction xs arbitrary: i) (auto split: nat.splits)

lemma queue_dbus_New [simp]: "queue (snd (dbus_New b)) = queue b"
  by (simp add: dbus_New_def Let_def)

lemma queue_conn_Close [simp]: "queue (conn_Close c b) = queue b"
  by (simp add: conn_Close_def)

lemma queue_recv: "recv c j b = Some (r, b') \<Longrightarrow> queue b' = queue b"
  by (auto simp: recv_def split: option.splits)

lemma client_step_measure:
  assumes "client_step k p b = Some (p', b')"
  shows "2 * pc_weight p' + length (queue b') < 2 * pc_weight p + length (queue b)"
proof (cases p)
  case PcStart
  then show ?thesis using assms
    by (cases "dbus_New b") (auto split: sum.splits dest: arg_cong [where f = "queue \<circ> snd"])
next
  case (PcConn c)
  obtain r b1 where req: "call_request k c b = (r, b1)" by fastforce
  show ?thesis
  proof (cases r)
    case (Inl e)
    then show ?thesis using assms PcConn req call_request_Inl [of k c b e b1] by auto
  next
    case (Inr j)
    then obtain n kind where "queue b1 = filter (\<lambda>x. job_unit x \<noteq> n) (queue b) @ [\<lparr>job_num = j, job_unit = n, job_kind = kind\<rparr>]"
      using req call_request_Inr [of k c b j b1] by blast
    moreover have "length (filter (\<lambda>x. job_unit x \<noteq> n) (queue b)) \<le> length (queue b)" by simp
    ultimately show ?thesis using assms PcConn req Inr by (auto simp: less_Suc_eq_le)
  qed
next
  case (PcWait c j)
  then show ?thesis using assms by (auto split: option.splits dest: queue_recv)
next
  case (PcDone e)
  then show ?thesis using assms by simp
qed

lemma sys_step_measure: "sys_step S S' \<Longrightarrow> sys_measure S' < sys_measure S"
proof (induction rule: sys_step.induct)
  case (thread i ts k p b p' b')
  let ?w = "map (pc_weight \<circ> snd) ts"
  have "sum_list (?w[i := pc_weight p']) + pc_weight p = sum_list ?w + pc_weight p'"
    using sum_list_update_nat [of i ?w "pc_weight p'"] thread.hyps(1,2) by simp
  then show ?case using client_step_measure [OF thread.hyps(3)] thread.hyps(1)
    by (simp add: sys_measure_def map_update)
next
  case (manager b ts)
  then show ?case by (simp add: sys_measure_def)
qed
lemma sched_step_iff: "sys_step S S' \<longleftrightarrow> (\<exists>x. sched_step x S = Some S')"
proof
  assume "sys_step S S'"
  then show "\<exists>x. sched_step x S = Some S'"
  proof (induction rule: sys_step.induct)
    case (thread i ts k p b p' b')
    then show ?case by (intro exI [of _ "Thread i"]) simp
  next
    case (manager b ts)
    then show ?case by (intro exI [of _ Manager]) simp
  qed
next
  assume "\<exists>x. sched_step x S = Some S'"
  then obtain x where x: "sched_step x S = Some S'" by blast
  obtain ts b where S: "S = (ts, b)" by fastforce
  show "sys_step S S'"
  proof (cases x)
    case (Thread i)
    then obtain k p p' b' where "i < length ts" "ts ! i = (k, p)" "client_step k p b = Some (p', b')"
        "S' = (ts[i := (k, p')], b')"
      using x S by (auto split: if_splits prod.splits option.splits)
    then show ?thesis using S thread by blast
  next
    case Manager
    then show ?thesis using x S manager by (auto split: if_splits)
  qed
qed

lemma sys_run_star: "sys_run xs S = Some S' \<Longrightarrow> sys_step\<^sup>*\<^sup>* S S'"
proof (induction xs arbitrary: S)
  case Nil
  then show ?case by simp
next
  case (Cons x xs)
  then obtain S1 where "sched_step x S = Some S1" "sys_run xs S1 = Some S'"
    by (auto split: option.splits)
  then show ?case using Cons.IH sched_step_iff by (meson converse_rtranclp_into_rtranclp)
qed

lemma pc_done_iff: "(case p of PcDone e \<Rightarrow> True | _ \<Rightarrow> False) \<longleftrightarrow> (\<exists>e. p = PcDone e)"
  by (cases p) auto

lemma all_returned_iff: "all_returned S \<longleftrightarrow> (\<forall>t \<in> set (fst S). \<exists>e. snd t = PcDone e)"
  by (simp only: all_returned_def list_all_iff pc_done_iff)

lemma sys_inv_returns:
  "sys_inv S \<Longrightarrow> \<exists>S'. sys_step\<^sup>*\<^sup>* S S' \<and> all_returned S'"
proof (induction S rule: measure_induct_rule [where f = sys_measure])
  case (less S)
  obtain ts b where S: "S = (ts, b)" by fastforce
  show ?case
  proof (cases "all_returned S")
    case True
    then show ?thesis by blast
  next
    case False
    then obtain S1 where st: "sys_step S S1"
      using sys_progress [of ts b] less.prems S by (auto simp: all_returned_iff)
    obtain S' where "sys_step\<^sup>*\<^sup>* S1 S'" "all_returned S'"
      using less.IH [OF sys_step_measure [OF st] sys_step_inv [OF st less.prems]] by blast
    then show ?thesis using st by (meson converse_rtranclp_into_rtranclp)
  qed
qed

lemmas sys_eval_defs = sys_init_def bus_init_def dbus_New_def StartTransientUnit_def StopUnit_def
  enqueue_job_def valid_job_mode_def valid_unit_name_def unit_suffixes_def valid_property_def
  property_well_typed_def unit_property_sig_def
  splitName_def Split_def TrimSuffix_def HasSuffix_def IsPathSeparator_def create_properties_def
  PropDescription_def PropWants_def newProperty_def recv_def conn_Close_def register_def
  cancel_jobs_def deliver_def run_job_def job_outcome_def Let_def

lemmas sys_sym_defs = sys_init_def bus_init_def dbus_New_def StartTransientUnit_def StopUnit_def
  enqueue_job_def valid_job_mode_def recv_def conn_Close_def register_def
  cancel_jobs_def deliver_def run_job_def job_outcome_def Let_def

lemma race_run:
  assumes "splitName path = (slice, name)" and "valid_unit_name name" and "valid_unit_name slice"
  shows "case sys_run [Thread 0, Thread 1, Thread 0, Thread 1, Thread 0]
         (sys_init [CallCreate path, CallDelete path] []) of
     None \<Rightarrow> False
   | Some S \<Rightarrow> snd (fst S ! 0) = PcDone None \<and> EvRecv 0 0 ''canceled'' \<in> set (calls (snd S)) \<and>
       (\<exists>u. units (snd S) name = Some u \<and> \<not> unit_active u)"
  using assms by (simp add: sys_sym_defs create_properties_valid)


lemma relpow_measure: "(sys_step ^^ m) S S' \<Longrightarrow> sys_measure S' + m \<le> sys_measure S"
proof (induction m arbitrary: S')
  case 0
  then show ?case by simp
next
  case (Suc m)
  then obtain S1 where "(sys_step ^^ m) S S1" "sys_step S1 S'" by auto
  then show ?case using Suc.IH sys_step_measure by fastforce
qed

lemma sys_measure_init: "sys_measure (sys_init ks fails) = 6 * length ks"
  by (induction ks) (simp_all add: sys_measure_def sys_init_def bus_init_def)

lemma sys_run_relpow: "sys_run xs S = Some S' \<Longrightarrow> (sys_step ^^ length xs) S S'"
proof (induction xs arbitrary: S)
  case Nil
  then show ?case by simp
next
  case (Cons x xs)
  then obtain S1 where "sched_step x S = Some S1" "sys_run xs S1 = Some S'"
    by (auto split: option.splits)
  then have "sys_step S S1" "(sys_step ^^ length xs) S1 S'"
    using Cons.IH sched_step_iff by blast+
  then show ?case by (simp only: length_Cons) (rule relpowp_Suc_I2)
qed

section \<open>The thread model and the sequential methods\<close>

text \<open>
  The sequential \<open>Create\<close> and \<open>Delete\<close> are schedules of the thread model:
  whenever they return, the thread running their statements alone, with the
  manager running jobs while it waits, reaches the same result and bus.
\<close>

lemma Create_thread:
  assumes "Create s path resources b = Some (e, b')"
  shows "sys_step\<^sup>*\<^sup>* ([(CallCreate path, PcStart)], b) ([(CallCreate path, PcDone e)], b')"
proof -
  obtain slice name where sn: "splitName path = (slice, name)" by fastforce
  show ?thesis using assms by (intro call_star) (simp add: Create_def sn cong: sum.case_cong)
qed

lemma Delete_thread:
  assumes "Delete s path b = Some (e, b')"
  shows "sys_step\<^sup>*\<^sup>* ([(CallDelete path, PcStart)], b) ([(CallDelete path, PcDone e)], b')"
proof -
  obtain slice name where sn: "splitName path = (slice, name)" by fastforce
  show ?thesis using assms by (intro call_star) (simp add: Delete_def sn cong: sum.case_cong)
qed

text \<open>The step relation and the scheduler describe the same runs.\<close>

lemma sys_runs_schedules:
  "sys_step\<^sup>*\<^sup>* S S' \<longleftrightarrow> (\<exists>xs. sys_run xs S = Some S')"
proof
  assume "sys_step\<^sup>*\<^sup>* S S'"
  then show "\<exists>xs. sys_run xs S = Some S'"
  proof (induction rule: converse_rtranclp_induct)
    case base
    show ?case by (intro exI [of _ "[]"]) simp
  next
    case (step S S1)
    obtain x where "sched_step x S = Some S1" using step.hyps(1) sched_step_iff by blast
    moreover obtain xs where "sys_run xs S1 = Some S'" using step.IH by blast
    ultimately show ?case by (intro exI [of _ "x # xs"]) simp
  qed
next
  assume "\<exists>xs. sys_run xs S = Some S'"
  then show "sys_step\<^sup>*\<^sup>* S S'" using sys_run_star by blast
qed

text \<open>Every run is finite.\<close>

lemma sys_terminates: "wf {(S', S). sys_step S S'}"
proof (rule wf_subset [OF wf_measure [of sys_measure]])
  show "{(S', S). sys_step S S'} \<subseteq> measure sys_measure"
    using sys_step_measure by auto
qed

lemma run_length_bound:
  assumes "(sys_step ^^ m) (sys_init ks fails) S"
  shows "m \<le> 6 * length ks"
  using relpow_measure [OF assms] sys_measure_init [of ks fails] by simp

section \<open>Open connections and live threads\<close>

lemma live_conns_iff: "c \<in> live_conns ts \<longleftrightarrow> (\<exists>t \<in> set ts. pc_conn (snd t) = Some c)"
  by (induction ts) (auto simp: live_conns_def map_filter_simps split: option.splits)

lemma live_conns_nth: "c \<in> live_conns ts \<longleftrightarrow> (\<exists>j < length ts. pc_conn (snd (ts ! j)) = Some c)"
  unfolding live_conns_iff by (metis in_set_conv_nth)

lemma live_conns_update:
  assumes i: "i < length ts"
    and d: "\<And>j c. j < length ts \<Longrightarrow> pc_conn (snd (ts ! i)) = Some c \<Longrightarrow>
              pc_conn (snd (ts ! j)) = Some c \<Longrightarrow> i = j"
  shows "live_conns (ts[i := t]) = (live_conns ts - set_option (pc_conn (snd (ts ! i)))) \<union> set_option (pc_conn (snd t))"
proof (rule set_eqI)
  fix c
  have upd: "c \<in> live_conns (ts[i := t]) \<longleftrightarrow>
      pc_conn (snd t) = Some c \<or> (\<exists>j < length ts. j \<noteq> i \<and> pc_conn (snd (ts ! j)) = Some c)"
    unfolding live_conns_nth using i by (auto simp: nth_list_update)
  have old: "c \<in> live_conns ts - set_option (pc_conn (snd (ts ! i))) \<longleftrightarrow>
      (\<exists>j < length ts. j \<noteq> i \<and> pc_conn (snd (ts ! j)) = Some c)"
    using d by (auto simp: live_conns_nth)
  show "c \<in> live_conns (ts[i := t]) \<longleftrightarrow>
      c \<in> (live_conns ts - set_option (pc_conn (snd (ts ! i)))) \<union> set_option (pc_conn (snd t))"
    using upd old by auto
qed

lemma dom_call_request: "dom (conns (snd (call_request k c b))) = dom (conns b)"
  by (cases k) (simp_all add: Let_def dom_StartTransientUnit dom_StopUnit split: prod.splits)

lemma client_step_dom:
  assumes "wf_bus b" and "pc_ok b p" and "client_step k p b = Some (p', b')"
  shows "dom (conns b') = (dom (conns b) - set_option (pc_conn p)) \<union> set_option (pc_conn p')"
proof (cases p)
  case PcStart
  then show ?thesis using assms
  proof (cases "dbus_New b")
    case (Pair r b1)
    then show ?thesis using assms PcStart
      by (cases r) (auto simp: dbus_New_def Let_def split: if_splits)
  qed
next
  case (PcConn c)
  obtain r b1 where req: "call_request k c b = (r, b1)" by fastforce
  have d1: "dom (conns b1) = dom (conns b)" using dom_call_request [of k c b] req by simp
  have cd: "c \<in> dom (conns b)" using assms(2) PcConn by auto
  show ?thesis
  proof (cases r)
    case (Inl err)
    then have "p' = PcDone (Some err)" "b' = conn_Close c b1" using assms(3) PcConn req by auto
    then show ?thesis using PcConn d1 by simp
  next
    case (Inr j)
    then have "p' = PcWait c j" "b' = b1" using assms(3) PcConn req by auto
    then show ?thesis using PcConn d1 cd by (simp add: insert_absorb)
  qed
next
  case (PcWait c ch)
  then obtain r b1 where "recv c ch b = Some (r, b1)" "b' = conn_Close c b1" "p' = PcDone None"
    using assms(3) by (auto split: option.splits)
  then show ?thesis using PcWait dom_recv by simp
next
  case (PcDone e)
  then show ?thesis using assms(3) by simp
qed

lemma conn_step:
  assumes st: "sys_step S S'" and inv: "sys_inv S" and acc: "dom (conns (snd S)) = live_conns (fst S)"
  shows "dom (conns (snd S')) = live_conns (fst S')"
  using st
proof cases
  case (thread i ts k p b p' b')
  have d: "\<And>j c. j < length ts \<Longrightarrow> pc_conn (snd (ts ! i)) = Some c \<Longrightarrow>
              pc_conn (snd (ts ! j)) = Some c \<Longrightarrow> i = j"
    using sys_invD(3) [of ts b i] inv thread(1,3) by blast
  have "dom (conns b') = (dom (conns b) - set_option (pc_conn p)) \<union> set_option (pc_conn p')"
    using client_step_dom [OF sys_invD(1) [of ts b] sys_invD(2) [of ts b i]] inv thread by simp
  then show ?thesis using live_conns_update [OF thread(3) d, where t = "(k, p')"] thread acc by simp
next
  case (manager b ts)
  then show ?thesis using acc dom_run_job by simp
qed

lemma conn_star:
  assumes "sys_step\<^sup>*\<^sup>* (sys_init ks fails) S"
  shows "dom (conns (snd S)) = live_conns (fst S)"
  using assms
proof (induction rule: rtranclp_induct)
  case base
  then show ?case by (simp add: sys_init_def bus_init_def live_conns_def map_filter_def)
next
  case (step S1 S2)
  then show ?case using conn_step sys_star_inv [OF step.hyps(1) sys_inv_init] by blast
qed

section \<open>Properties\<close>

text \<open>
  C24. No connection leaks under any interleaving: in every state reachable
  from threads that have not started, the open connections of the bus are
  exactly the connections of the threads that have connected and not yet
  returned. Every returned thread, on every branch, has closed its connection,
  and no thread's \<open>Close\<close> closes another's.
\<close>

theorem conns_match_threads:
  assumes "sys_step\<^sup>*\<^sup>* (sys_init ks fails) (ts, b)"
  shows "dom (conns b) = live_conns ts"
  using conn_star [OF assms] by simp

theorem conns_match_threads_witness:
  "\<exists>ts b. sys_step\<^sup>*\<^sup>* (sys_init [CallCreate ''system.slice/web.slice''] []) (ts, b) \<and>
     ts = [(CallCreate ''system.slice/web.slice'', PcWait 0 0)] \<and>
     dom (conns b) = live_conns ts \<and> live_conns ts = {0}"
proof -
  have "case sys_run [Thread 0, Thread 0] (sys_init [CallCreate ''system.slice/web.slice''] []) of
          None \<Rightarrow> False
        | Some S \<Rightarrow> fst S = [(CallCreate ''system.slice/web.slice'', PcWait 0 0)]"
    by (simp add: sys_eval_defs)
  then obtain ts b where r: "sys_run [Thread 0, Thread 0] (sys_init [CallCreate ''system.slice/web.slice''] []) =
      Some (ts, b)" and t: "ts = [(CallCreate ''system.slice/web.slice'', PcWait 0 0)]"
    by (auto split: option.splits)
  have st: "sys_step\<^sup>*\<^sup>* (sys_init [CallCreate ''system.slice/web.slice''] []) (ts, b)"
    using sys_run_star [OF r] .
  have l: "live_conns ts = {0}" using t by (simp add: live_conns_def map_filter_simps)
  show ?thesis using st t l conns_match_threads [OF st] by blast
qed

text \<open>
  C25. In every state reachable from threads that have not started, a thread
  blocked on \<open><-ch\<close> still has its connection open and its channel registered:
  no other thread's request, receive or close, and no job the manager runs,
  removes it.
\<close>

theorem waiting_thread_registered:
  assumes "sys_step\<^sup>*\<^sup>* (sys_init ks fails) (ts, b)" and "i < length ts" and "ts ! i = (k, PcWait c ch)"
  shows "\<exists>l. conns b c = Some l \<and> l ch \<noteq> None"
proof -
  have "sys_inv (ts, b)" using sys_star_inv [OF assms(1) sys_inv_init] .
  then show ?thesis using sys_invD(2) [of ts b i] assms(2,3) by simp
qed

theorem waiting_thread_registered_witness:
  "\<exists>ts b. sys_step\<^sup>*\<^sup>* (sys_init [CallCreate ''system.slice/web.slice''] []) (ts, b) \<and>
     0 < length ts \<and> ts ! 0 = (CallCreate ''system.slice/web.slice'', PcWait 0 0) \<and>
     (\<exists>l. conns b 0 = Some l \<and> l 0 \<noteq> None)"
proof -
  have "case sys_run [Thread 0, Thread 0] (sys_init [CallCreate ''system.slice/web.slice''] []) of
          None \<Rightarrow> False
        | Some S \<Rightarrow> fst S = [(CallCreate ''system.slice/web.slice'', PcWait 0 0)]"
    by (simp add: sys_eval_defs)
  then obtain ts b where r: "sys_run [Thread 0, Thread 0] (sys_init [CallCreate ''system.slice/web.slice''] []) =
      Some (ts, b)" and t: "ts = [(CallCreate ''system.slice/web.slice'', PcWait 0 0)]"
    by (auto split: option.splits)
  have st: "sys_step\<^sup>*\<^sup>* (sys_init [CallCreate ''system.slice/web.slice''] []) (ts, b)"
    using sys_run_star [OF r] .
  have w: "\<exists>l. conns b 0 = Some l \<and> l 0 \<noteq> None"
    using waiting_thread_registered [OF st, of 0 "CallCreate ''system.slice/web.slice''" 0 0] t by simp
  show ?thesis using st t w by (intro exI [of _ ts] exI [of _ b]) simp
qed

text \<open>
  C26. Every run ends with every call returned: starting from \<open>n\<close> calls
  that have not started, however the threads and the manager are interleaved,
  a run has at most \<open>6 n\<close> steps, and a state from which neither a thread
  nor the manager can move has every \<open>Create\<close> and \<open>Delete\<close> returned; no
  run ends with a thread blocked on its channel.
\<close>

theorem runs_end_returned:
  assumes "(sys_step ^^ m) (sys_init ks fails) S"
  shows "m \<le> 6 * length ks \<and> ((\<forall>S'. \<not> sys_step S S') \<longrightarrow> all_returned S)"
proof -
  have m: "m \<le> 6 * length ks" using run_length_bound [OF assms] .
  obtain ts b where S: "S = (ts, b)" by fastforce
  have "sys_inv (ts, b)" using sys_star_inv [OF relpowp_imp_rtranclp [OF assms] sys_inv_init] S by simp
  then have "(\<forall>S'. \<not> sys_step S S') \<longrightarrow> all_returned S"
    using sys_progress [of ts b] S by (auto simp: all_returned_iff)
  then show ?thesis using m by simp
qed

theorem runs_end_returned_witness:
  "\<exists>S. (sys_step ^^ 4) (sys_init [CallCreate ''system.slice/web.slice''] []) S \<and>
     (\<forall>S'. \<not> sys_step S S') \<and> (4::nat) \<le> 6 * 1 \<and> all_returned S"
proof -
  have "case sys_run [Thread 0, Thread 0, Manager, Thread 0] (sys_init [CallCreate ''system.slice/web.slice''] []) of
          None \<Rightarrow> False
        | Some S \<Rightarrow> fst S = [(CallCreate ''system.slice/web.slice'', PcDone None)] \<and> queue (snd S) = []"
    by (simp add: sys_eval_defs)
  then obtain S where r: "sys_run [Thread 0, Thread 0, Manager, Thread 0]
      (sys_init [CallCreate ''system.slice/web.slice''] []) = Some S"
    and t: "fst S = [(CallCreate ''system.slice/web.slice'', PcDone None)]" and q: "queue (snd S) = []"
    by (auto split: option.splits)
  have st: "(sys_step ^^ 4) (sys_init [CallCreate ''system.slice/web.slice''] []) S"
    using sys_run_relpow [OF r] by (simp add: numeral_eq_Suc)
  have "sched_step x S = None" for x
    using t q by (cases x; cases S) (auto simp: less_Suc_eq)
  then have stuck: "\<forall>S'. \<not> sys_step S S'" using sched_step_iff by simp
  have "(4::nat) \<le> 6 * 1 \<and> all_returned S" using runs_end_returned [OF st] stuck by simp
  then show ?thesis using st stuck by blast
qed

text \<open>
  C27. Liveness: from every state reachable from threads that have not started,
  the system can run until every \<open>Create\<close> and \<open>Delete\<close> call has returned;
  no thread is left blocked on its channel.
\<close>

theorem all_calls_return:
  assumes "sys_step\<^sup>*\<^sup>* (sys_init ks fails) S"
  shows "\<exists>S'. sys_step\<^sup>*\<^sup>* S S' \<and> all_returned S'"
  using sys_inv_returns [OF sys_star_inv [OF assms sys_inv_init]] .

theorem all_calls_return_witness:
  "sys_step\<^sup>*\<^sup>* (sys_init [CallCreate ''system.slice/web.slice''] []) (sys_init [CallCreate ''system.slice/web.slice''] []) \<and>
   (\<exists>S'. sys_step\<^sup>*\<^sup>* (sys_init [CallCreate ''system.slice/web.slice''] []) S' \<and> all_returned S')"
  using all_calls_return [OF rtranclp.rtrancl_refl] by blast

text \<open>
  C28. For every path whose unit name and parent slice systemd accepts, a
  concurrent \<open>Delete\<close> of that path can cancel the start job of a
  \<open>Create\<close> in flight (mode \<open>replace\<close>): \<open>Create\<close> receives \<open>canceled\<close>
  on its channel and still returns \<open>nil\<close>, while its unit is loaded but not
  active. \<open>Create\<close> returning \<open>nil\<close> does not mean the cgroup's unit was started.
\<close>

theorem Create_canceled_by_Delete:
  assumes "splitName path = (slice, name)" and "valid_unit_name name" and "valid_unit_name slice"
  shows "\<exists>S. sys_step\<^sup>*\<^sup>* (sys_init [CallCreate path, CallDelete path] []) S \<and>
       snd (fst S ! 0) = PcDone None \<and> EvRecv 0 0 ''canceled'' \<in> set (calls (snd S)) \<and>
       (\<exists>u. units (snd S) name = Some u \<and> \<not> unit_active u)"
proof -
  obtain S where r: "sys_run [Thread 0, Thread 1, Thread 0, Thread 1, Thread 0]
      (sys_init [CallCreate path, CallDelete path] []) = Some S"
    and p: "snd (fst S ! 0) = PcDone None \<and> EvRecv 0 0 ''canceled'' \<in> set (calls (snd S)) \<and>
       (\<exists>u. units (snd S) name = Some u \<and> \<not> unit_active u)"
    using race_run [OF assms] by (auto split: option.splits)
  show ?thesis using sys_run_star [OF r] p by blast
qed

theorem Create_canceled_by_Delete_witness:
  "\<exists>S. sys_step\<^sup>*\<^sup>*
          (sys_init [CallCreate ''system.slice/web.slice'', CallDelete ''system.slice/web.slice''] []) S \<and>
       snd (fst S ! 0) = PcDone None \<and> EvRecv 0 0 ''canceled'' \<in> set (calls (snd S)) \<and>
       (\<exists>u. units (snd S) ''web.slice'' = Some u \<and> \<not> unit_active u)"
proof -
  have sn: "splitName ''system.slice/web.slice'' = (''system.slice'', ''web.slice'')"
    by (simp add: splitName_def Split_def TrimSuffix_def HasSuffix_def IsPathSeparator_def)
  have v: "valid_unit_name ''web.slice''" "valid_unit_name ''system.slice''"
    by (simp_all add: valid_unit_name_def unit_suffixes_def HasSuffix_def)
  show ?thesis using Create_canceled_by_Delete [OF sn v] .
qed



end
