(* ===== verification/Lifecycle.thy ===== *)
theory Lifecycle
  imports Controller
begin

text \<open>
  Sequential compositions of the controller's methods and their boundary inputs:
  \<open>Create\<close> followed by \<open>Delete\<close> of the same path, and paths whose last element
  is empty, for which \<open>splitName\<close> yields an empty unit name.
\<close>

section \<open>Delete on a loaded unit\<close>

lemma Delete_outcome:
  assumes "\<forall>x \<in> set (queue b). job_num x < next_job b"
    and "bus_up b" and "snd (splitName path) = name"
    and "valid_unit_name name" and "units b name \<noteq> None"
  shows "\<exists>b'. Delete s path b = Some (None, b') \<and> units b' name = None \<and>
           calls b' = calls b @ [EvConnect (next_conn b), EvStopUnit (next_conn b) name ''replace'',
             EvRecv (next_conn b) (next_job b) ''done'', EvClose (next_conn b)]"
proof -
  let ?c = "next_conn b"
  let ?ev = "EvStopUnit ?c name ''replace''"
  let ?b1 = "b\<lparr>conns := (conns b)(?c \<mapsto> Map.empty), next_conn := Suc ?c, calls := calls b @ [EvConnect ?c]\<rparr>"
  let ?jb = "\<lparr>job_num = next_job b, job_unit = name, job_kind = JobStop\<rparr>"
  have out: "job_outcome ?b1 ?jb = (''done'', (units ?b1)(name := None))"
    by (simp add: job_outcome_def)
  obtain b3 where aw: "await ?c (next_job b) (submit ?c name JobStop ?ev ?b1) = Some (''done'', b3)"
      and u: "units b3 name = None"
      and cl: "calls b3 = calls b @ [EvConnect ?c, ?ev, EvRecv ?c (next_job b) ''done'']"
    using await_submit_outcome [of ?b1 ?c name JobStop ?ev] assms(1) out by auto
  have "Delete s path b = Some (None, conn_Close ?c b3)"
    using assms aw by (auto simp: Delete_def controller_simps split: prod.splits)
  with u cl show ?thesis by (simp add: conn_Close_def)
qed

lemma bus_up_await: "await c j b = Some (r, b') \<Longrightarrow> bus_up b' = bus_up b"
proof (induction c j b rule: await.induct)
  case (1 c j b)
  then show ?case
    by (cases "recv c j b")
       (auto simp: await.simps [of c j b] recv_def split: if_splits option.splits)
qed

lemma bus_up_enqueue_job: "bus_up (snd (enqueue_job c n k m b)) = bus_up b"
  by (simp add: enqueue_job_def Let_def)

lemma bus_up_StartTransientUnit: "bus_up (snd (StartTransientUnit c n m ps b)) = bus_up b"
  using bus_up_enqueue_job [of c n JobStart m "b\<lparr>calls := calls b @ [EvStartTransientUnit c n m ps]\<rparr>"]
  by (auto simp: StartTransientUnit_def Let_def split: prod.splits sum.splits)

lemma Create_bus_up:
  assumes "Create s path resources b = Some (e, b')"
  shows "bus_up b' = bus_up b"
proof (cases "dbus_New b")
  case (Pair r b1)
  have u1: "bus_up b1 = bus_up b" using Pair by (auto simp: dbus_New_def Let_def split: if_splits)
  show ?thesis
  proof (cases r)
    case (Inl err)
    then show ?thesis using assms Pair u1 by (simp add: Create_def)
  next
    case (Inr conn)
    obtain slice name where sn: "splitName path = (slice, name)" by fastforce
    obtain r2 b2 where st: "StartTransientUnit conn name ''replace'' (create_properties slice name) b1 = (r2, b2)"
      by fastforce
    have u2: "bus_up b2 = bus_up b1" using bus_up_StartTransientUnit st by (metis snd_conv)
    show ?thesis
    proof (cases r2)
      case (Inl err)
      then show ?thesis using assms Pair Inr sn st u1 u2 by (auto simp: Create_def conn_Close_def)
    next
      case (Inr ch)
      then obtain x b3 where "await conn ch b2 = Some (x, b3)" "b' = conn_Close conn b3"
        using assms Pair \<open>r = Inr conn\<close> sn st by (auto simp: Create_def split: option.splits)
      then show ?thesis using u1 u2 bus_up_await by (simp add: conn_Close_def)
    qed
  qed
qed

lemma splitName_trailing:
  assumes "path = [] \<or> last path = CHR ''/''"
  shows "snd (splitName path) = []"
proof -
  have "Split (path @ []) = (path, [])" using assms by (intro Split_append) auto
  then show ?thesis by (simp add: splitName_def)
qed

lemma empty_unit_invalid: "\<not> valid_unit_name []"
  by (simp add: valid_unit_name_def unit_suffixes_def HasSuffix_def)

section \<open>Properties\<close>

text \<open>
  C29. \<open>Create\<close> followed by \<open>Delete\<close> of the same path, on a well-formed bus
  with the unit not loaded: both return \<open>nil\<close>, the unit is gone at the end, and
  the clients did exactly: connect, start, receive \<open>done\<close>, close, connect,
  stop, receive \<open>done\<close>, close.
\<close>

theorem Create_then_Delete:
  assumes "wf_bus b" and "bus_up b" and "splitName path = (slice, name)"
    and "valid_unit_name name" and "valid_unit_name slice" and "units b name = None"
    and "name \<notin> set (failing b)"
  shows "\<exists>b1 b2. Create s path resources b = Some (None, b1) \<and> Delete s path b1 = Some (None, b2) \<and>
           units b2 name = None \<and>
           calls b2 = calls b @ [EvConnect (next_conn b),
             EvStartTransientUnit (next_conn b) name ''replace'' (create_properties slice name),
             EvRecv (next_conn b) (next_job b) ''done'', EvClose (next_conn b),
             EvConnect (next_conn b1), EvStopUnit (next_conn b1) name ''replace'',
             EvRecv (next_conn b1) (next_job b1) ''done'', EvClose (next_conn b1)]"
proof -
  obtain b1 where c: "Create s path resources b = Some (None, b1)"
      and u1: "units b1 name = Some \<lparr>unit_props = create_properties slice name, unit_active = True\<rparr>"
      and cl1: "calls b1 = calls b @ [EvConnect (next_conn b),
             EvStartTransientUnit (next_conn b) name ''replace'' (create_properties slice name),
             EvRecv (next_conn b) (next_job b) ''done'', EvClose (next_conn b)]"
    using Create_outcome [OF wf_bus_jobs_below [OF assms(1)] assms(2-6), where s = s and resources = resources]
      assms(7) by auto
  have wf1: "wf_bus b1" using Create_wf [OF assms(1) c] .
  have up1: "bus_up b1" using c assms(2) by (simp add: Create_bus_up)
  obtain b2 where "Delete s path b1 = Some (None, b2)" "units b2 name = None"
      "calls b2 = calls b1 @ [EvConnect (next_conn b1), EvStopUnit (next_conn b1) name ''replace'',
             EvRecv (next_conn b1) (next_job b1) ''done'', EvClose (next_conn b1)]"
    using Delete_outcome [OF wf_bus_jobs_below [OF wf1] up1 _ assms(4), of path] assms(3) u1 by auto
  then show ?thesis using c cl1 by auto
qed

theorem Create_then_Delete_witness:
  "\<exists>b1 b2. Create \<lparr>mu = False, root = ''/sys/fs/cgroup''\<rparr> ''system.slice/foo.slice'' () (bus_init []) =
       Some (None, b1) \<and>
     Delete \<lparr>mu = False, root = ''/sys/fs/cgroup''\<rparr> ''system.slice/foo.slice'' b1 = Some (None, b2) \<and>
     units b2 ''foo.slice'' = None \<and>
     calls b2 = calls (bus_init []) @ [EvConnect (next_conn (bus_init [])),
       EvStartTransientUnit (next_conn (bus_init [])) ''foo.slice'' ''replace''
         (create_properties ''system.slice'' ''foo.slice''),
       EvRecv (next_conn (bus_init [])) (next_job (bus_init [])) ''done'', EvClose (next_conn (bus_init [])),
       EvConnect (next_conn b1), EvStopUnit (next_conn b1) ''foo.slice'' ''replace'',
       EvRecv (next_conn b1) (next_job b1) ''done'', EvClose (next_conn b1)]"
proof -
  have i: "bus_up (bus_init [])" "units (bus_init []) ''foo.slice'' = None"
      "''foo.slice'' \<notin> set (failing (bus_init []))"
    by (simp_all add: bus_init_def)
  have sn: "splitName ''system.slice/foo.slice'' = (''system.slice'', ''foo.slice'')"
    by (simp add: splitName_def Split_def TrimSuffix_def HasSuffix_def IsPathSeparator_def)
  have v: "valid_unit_name ''foo.slice''" "valid_unit_name ''system.slice''"
    by (simp_all add: valid_unit_name_def unit_suffixes_def HasSuffix_def)
  show ?thesis
    using Create_then_Delete [OF wf_bus_init i(1) sn v i(2) i(3),
        where s = "\<lparr>mu = False, root = ''/sys/fs/cgroup''\<rparr>" and resources = "()"] .
qed

text \<open>
  C30. A path that is empty or ends in a separator has an empty last element:
  \<open>splitName\<close> returns the empty unit name, and both \<open>Create\<close> and \<open>Delete\<close>
  are refused by the manager with \<open>InvalidUnitName ""\<close> (after connecting and
  closing again); neither method normalises the path first.
\<close>

theorem empty_unit_rejected:
  assumes "bus_up b" and "path = [] \<or> last path = CHR ''/''"
  shows "map_option fst (Create s path resources b) = Some (Some (InvalidUnitName [])) \<and>
         map_option fst (Delete s path b) = Some (Some (InvalidUnitName []))"
proof -
  obtain slice where sn: "splitName path = (slice, [])"
    using splitName_trailing [OF assms(2)] by (cases "splitName path") auto
  show ?thesis
    using assms(1) sn empty_unit_invalid
    by (simp add: Create_def Delete_def controller_simps)
qed

theorem empty_unit_rejected_witness:
  "bus_up (bus_init []) \<and> (''system.slice/'' = [] \<or> last ''system.slice/'' = CHR ''/'') \<and>
   map_option fst (Create \<lparr>mu = False, root = ''/sys/fs/cgroup''\<rparr> ''system.slice/'' () (bus_init [])) =
     Some (Some (InvalidUnitName [])) \<and>
   map_option fst (Delete \<lparr>mu = False, root = ''/sys/fs/cgroup''\<rparr> ''system.slice/'' (bus_init [])) =
     Some (Some (InvalidUnitName []))"
  using empty_unit_rejected [of "bus_init []" "''system.slice/''",
      where s = "\<lparr>mu = False, root = ''/sys/fs/cgroup''\<rparr>" and resources = "()"]
  by (simp add: bus_init_def)

end
