(* ===== verification/Exclusive.thy ===== *)
theory Exclusive
  imports Concurrent
begin

text \<open>
  Concurrent \<open>Create\<close> calls alone, on a manager whose start jobs succeed: a
  unit once loaded stays loaded, so the manager accepts at most one start request
  per unit name; every other \<open>Create\<close> of that name is refused with
  \<open>UnitExists\<close>. A thread counts as accepted for a unit from the moment its
  request is accepted (blocked on \<open><-ch\<close>, or returned \<open>nil\<close>).
\<close>

section \<open>Accepted threads and the invariant\<close>

fun accepted_name :: "call \<times> pc \<Rightarrow> unit_name option" where
  "accepted_name (CallCreate path, PcWait conn ch) = Some (snd (splitName path))"
| "accepted_name (CallCreate path, PcDone None) = Some (snd (splitName path))"
| "accepted_name _ = None"

fun is_create :: "call \<Rightarrow> bool" where
  "is_create (CallCreate path) = True"
| "is_create (CallDelete path) = False"

definition create_inv :: "sys \<Rightarrow> bool" where
  "create_inv S \<longleftrightarrow>
     failing (snd S) = [] \<and>
     (\<forall>x \<in> set (queue (snd S)). job_kind x = JobStart) \<and>
     (\<forall>t \<in> set (fst S). is_create (fst t)) \<and>
     (\<forall>i < length (fst S). \<forall>n. accepted_name (fst S ! i) = Some n \<longrightarrow> units (snd S) n \<noteq> None) \<and>
     (\<forall>i < length (fst S). \<forall>j < length (fst S).
        accepted_name (fst S ! i) \<noteq> None \<longrightarrow> accepted_name (fst S ! i) = accepted_name (fst S ! j) \<longrightarrow> i = j)"

text \<open>A state keeps the loaded units, the failing list and start-only queue of another.\<close>

definition units_grow :: "bus \<Rightarrow> bus \<Rightarrow> bool" where
  "units_grow b b' \<longleftrightarrow>
     (\<forall>n. units b n \<noteq> None \<longrightarrow> units b' n \<noteq> None) \<and> failing b' = failing b \<and>
     ((\<forall>x \<in> set (queue b). job_kind x = JobStart) \<longrightarrow> (\<forall>x \<in> set (queue b'). job_kind x = JobStart))"

section \<open>Each step keeps the loaded units\<close>

lemma units_grow_refl: "units_grow b b"
  by (simp add: units_grow_def)

lemma units_grow_trans: "units_grow b1 b2 \<Longrightarrow> units_grow b2 b3 \<Longrightarrow> units_grow b1 b3"
  by (simp add: units_grow_def)

lemma units_grow_dbus_New: "units_grow b (snd (dbus_New b))"
  by (simp add: units_grow_def dbus_New_def Let_def)

lemma units_grow_conn_Close: "units_grow b (conn_Close c b)"
  by (simp add: units_grow_def conn_Close_def)

lemma units_grow_recv: "recv c j b = Some (r, b') \<Longrightarrow> units_grow b b'"
  by (auto simp: units_grow_def recv_def split: option.splits)

lemma units_grow_run_job:
  assumes "failing b = []" and "\<forall>x \<in> set (queue b). job_kind x = JobStart"
  shows "units_grow b (run_job b)"
proof (cases "queue b")
  case Nil
  then show ?thesis by (simp add: run_job_def units_grow_refl)
next
  case (Cons jb js)
  have "job_kind jb = JobStart" using assms(2) Cons by simp
  then have "snd (job_outcome b jb) n \<noteq> None" if "units b n \<noteq> None" for n
    using assms(1) that by (cases "n = job_unit jb") (auto simp: job_outcome_def Let_def)
  then show ?thesis using Cons assms(2) by (simp add: units_grow_def run_job_Cons)
qed

lemma StartTransientUnit_Inr_loaded:
  "StartTransientUnit c n m ps b = (Inr j, b') \<Longrightarrow> units b n = None \<and> units b' n \<noteq> None"
  by (auto simp: StartTransientUnit_def Let_def split: if_splits prod.splits sum.splits)

lemma units_grow_StartTransientUnit: "units_grow b (snd (StartTransientUnit c n m ps b))"
proof (cases "StartTransientUnit c n m ps b")
  case (Pair r b')
  show ?thesis
  proof (cases r)
    case (Inl e)
    have "conns b' = conns b \<and> queue b' = queue b" using StartTransientUnit_Inl Pair Inl by blast
    moreover have "units b' = units b \<and> failing b' = failing b"
      using Pair Inl by (auto simp: StartTransientUnit_def Let_def enqueue_job_def
                           split: if_splits prod.splits sum.splits)
    ultimately show ?thesis using Pair by (simp add: units_grow_def)
  next
    case (Inr j)
    have q: "queue b' = filter (\<lambda>x. job_unit x \<noteq> n) (queue b) @ [\<lparr>job_num = j, job_unit = n, job_kind = JobStart\<rparr>]"
      using StartTransientUnit_Inr Pair Inr by blast
    have "units b' = (units b)(n \<mapsto> \<lparr>unit_props = ps, unit_active = False\<rparr>) \<and> failing b' = failing b"
      using Pair Inr by (auto simp: StartTransientUnit_def Let_def enqueue_job_def
                           split: if_splits prod.splits sum.splits)
    then show ?thesis using Pair q by (auto simp: units_grow_def)
  qed
qed

lemma units_grow_call_request:
  "units_grow b (snd (call_request (CallCreate path) c b))"
  by (simp add: Let_def units_grow_StartTransientUnit split: prod.splits)
section \<open>The invariant over runs\<close>

lemma create_invD:
  assumes "create_inv (ts, b)"
  shows "failing b = []" and "\<forall>x \<in> set (queue b). job_kind x = JobStart"
    and "t \<in> set ts \<Longrightarrow> is_create (fst t)"
    and "i < length ts \<Longrightarrow> accepted_name (ts ! i) = Some n \<Longrightarrow> units b n \<noteq> None"
    and "i < length ts \<Longrightarrow> j < length ts \<Longrightarrow> accepted_name (ts ! i) = Some n \<Longrightarrow>
         accepted_name (ts ! j) = Some n \<Longrightarrow> i = j"
proof -
  show "failing b = []" "\<forall>x \<in> set (queue b). job_kind x = JobStart"
    using assms by (simp_all add: create_inv_def)
  show "t \<in> set ts \<Longrightarrow> is_create (fst t)" using assms by (simp add: create_inv_def)
  show "i < length ts \<Longrightarrow> accepted_name (ts ! i) = Some n \<Longrightarrow> units b n \<noteq> None"
    using assms unfolding create_inv_def fst_conv snd_conv by blast
  show "i < length ts \<Longrightarrow> j < length ts \<Longrightarrow> accepted_name (ts ! i) = Some n \<Longrightarrow>
        accepted_name (ts ! j) = Some n \<Longrightarrow> i = j"
    using assms unfolding create_inv_def fst_conv snd_conv by (metis option.distinct(1))
qed

lemma create_inv_update:
  assumes inv: "create_inv (ts, b)" and i: "i < length ts" and t: "ts ! i = (k, p)"
    and g: "units_grow b b'"
    and acc: "accepted_name (k, p') = None \<or> accepted_name (k, p') = accepted_name (k, p) \<or>
              (\<exists>n. accepted_name (k, p') = Some n \<and> units b n = None \<and> units b' n \<noteq> None)"
  shows "create_inv (ts[i := (k, p')], b')"
  unfolding create_inv_def fst_conv snd_conv
proof (intro conjI ballI allI impI)
  show "failing b' = []" using g create_invD(1) [OF inv] by (simp add: units_grow_def)
  show "job_kind x = JobStart" if "x \<in> set (queue b')" for x
    using g create_invD(2) [OF inv] that by (simp add: units_grow_def)
  show "is_create (fst u)" if "u \<in> set (ts[i := (k, p')])" for u
  proof -
    have "is_create k" using create_invD(3) [OF inv, of "ts ! i"] nth_mem [OF i] t by simp
    moreover have "u \<in> insert (k, p') (set ts)"
      using that set_update_subset_insert [of ts i "(k, p')"] by blast
    ultimately show ?thesis using create_invD(3) [OF inv, of u] by auto
  qed
next
  have old: "ts[i := (k, p')] ! m = ts ! m" if "m \<noteq> i" for m using that by simp
  have new: "ts[i := (k, p')] ! i = (k, p')" using i by simp
  have grow: "units b n \<noteq> None \<Longrightarrow> units b' n \<noteq> None" for n using g by (simp add: units_grow_def)
  have loaded_new: "units b' n \<noteq> None" if "accepted_name (k, p') = Some n" for n
    using acc that grow create_invD(4) [OF inv i, of n] t by auto
  show "units b' n \<noteq> None" if "m < length (ts[i := (k, p')])" "accepted_name (ts[i := (k, p')] ! m) = Some n" for m n
  proof (cases "m = i")
    case True
    then show ?thesis using that new loaded_new by simp
  next
    case False
    then show ?thesis using that old grow create_invD(4) [OF inv] by auto
  qed
  have fresh: "False" if h: "accepted_name (k, p') = Some n" "m < length ts" "m \<noteq> i" "accepted_name (ts ! m) = Some n"
    for m n
  proof -
    from acc show False
    proof (elim disjE exE conjE)
      assume "accepted_name (k, p') = None"
      then show False using h(1) by simp
    next
      assume "accepted_name (k, p') = accepted_name (k, p)"
      then have "accepted_name (ts ! i) = Some n" using h(1) t by simp
      then show False using create_invD(5) [OF inv i h(2) _ h(4)] h(3) by blast
    next
      fix n' assume "accepted_name (k, p') = Some n'" "units b n' = None"
      then show False using h create_invD(4) [OF inv h(2) h(4)] by simp
    qed
  qed
  show "m = m'" if hm: "m < length (ts[i := (k, p')])" "m' < length (ts[i := (k, p')])"
      "accepted_name (ts[i := (k, p')] ! m) \<noteq> None"
      "accepted_name (ts[i := (k, p')] ! m) = accepted_name (ts[i := (k, p')] ! m')" for m m'
  proof -
    obtain n where n: "accepted_name (ts[i := (k, p')] ! m) = Some n" using hm(3) by blast
    have n': "accepted_name (ts[i := (k, p')] ! m') = Some n" using n hm(4) by simp
    have ml: "m < length ts" "m' < length ts" using hm(1,2) by simp_all
    show "m = m'"
    proof (cases "m = i"; cases "m' = i")
      assume "m \<noteq> i" "m' \<noteq> i"
      then show ?thesis using n n' old create_invD(5) [OF inv ml] by simp
    next
      assume "m = i" "m' \<noteq> i"
      then show ?thesis using n n' new old fresh [of n m'] ml by simp
    next
      assume "m \<noteq> i" "m' = i"
      then show ?thesis using n n' new old fresh [of n m] ml by simp
    qed simp
  qed
qed

lemma create_thread_inv:
  assumes inv: "create_inv (ts, b)" and i: "i < length ts" and t: "ts ! i = (k, p)"
    and st: "client_step k p b = Some (p', b')"
  shows "create_inv (ts[i := (k, p')], b')"
proof -
  obtain path where k: "k = CallCreate path"
    using create_invD(3) [OF inv, of "ts ! i"] nth_mem [OF i] t by (cases k) auto
  show ?thesis
  proof (cases p)
    case PcStart
    then have "b' = snd (dbus_New b)" "accepted_name (k, p') = None"
      using st k by (auto split: prod.splits sum.splits)
    then show ?thesis using create_inv_update [OF inv i t] units_grow_dbus_New by blast
  next
    case (PcConn c)
    obtain r b1 where req: "call_request k c b = (r, b1)" by fastforce
    have g1: "units_grow b b1" using units_grow_call_request [of b path c] req k by simp
    show ?thesis
    proof (cases r)
      case (Inl e)
      then have "p' = PcDone (Some e)" "b' = conn_Close c b1" using st PcConn req by simp_all
      then show ?thesis
        using create_inv_update [OF inv i t units_grow_trans [OF g1 units_grow_conn_Close]] by simp
    next
      case (Inr j)
      then have e: "p' = PcWait c j" "b' = b1" using st PcConn req by simp_all
      obtain slice where sn: "splitName path = (slice, snd (splitName path))" by (cases "splitName path") auto
      have "StartTransientUnit c (snd (splitName path)) ''replace'' (create_properties slice (snd (splitName path))) b =
            (Inr j, b1)"
        using req Inr k sn by (simp add: Let_def split: prod.splits)
      then have "units b (snd (splitName path)) = None \<and> units b1 (snd (splitName path)) \<noteq> None"
        by (rule StartTransientUnit_Inr_loaded)
      then show ?thesis using create_inv_update [OF inv i t g1] e k by simp
    qed
  next
    case (PcWait c j)
    obtain r b1 where rv: "recv c j b = Some (r, b1)" and e: "p' = PcDone None" "b' = conn_Close c b1"
      using st PcWait by (auto split: option.splits)
    show ?thesis
      using create_inv_update [OF inv i t units_grow_trans [OF units_grow_recv [OF rv] units_grow_conn_Close]]
        e PcWait k by simp
  next
    case (PcDone x)
    then show ?thesis using st by simp
  qed
qed

lemma create_step_inv: "sys_step S S' \<Longrightarrow> create_inv S \<Longrightarrow> create_inv S'"
proof (induction rule: sys_step.induct)
  case (thread i ts k p b p' b')
  then show ?case using create_thread_inv by blast
next
  case (manager b ts)
  have g: "units_grow b (run_job b)"
    using units_grow_run_job create_invD(1,2) [OF manager.prems] by blast
  then show ?case using manager.prems unfolding create_inv_def units_grow_def by auto
qed

lemma create_star_inv: "sys_step\<^sup>*\<^sup>* S S' \<Longrightarrow> create_inv S \<Longrightarrow> create_inv S'"
  by (induction rule: rtranclp_induct) (auto intro: create_step_inv)

lemma create_inv_init: "create_inv (sys_init (map CallCreate paths) [])"
  by (simp add: create_inv_def sys_init_def bus_init_def)

lemma two_creates_eval:
  "case sys_run [Thread 0, Thread 0, Manager, Thread 0, Thread 1, Thread 1]
         (sys_init [CallCreate ''system.slice/web.slice'', CallCreate ''system.slice/web.slice''] []) of
     None \<Rightarrow> False
   | Some S \<Rightarrow> fst S = [(CallCreate ''system.slice/web.slice'', PcDone None),
                        (CallCreate ''system.slice/web.slice'', PcDone (Some (UnitExists ''web.slice'')))]"
  by (simp add: sys_eval_defs)

lemma two_creates_run:
  assumes "splitName path = (slice, name)" and "valid_unit_name name" and "valid_unit_name slice"
  shows "case sys_run [Thread 0, Thread 0, Manager, Thread 0, Thread 1, Thread 1]
         (sys_init [CallCreate path, CallCreate path] []) of
     None \<Rightarrow> False
   | Some S \<Rightarrow> fst S = [(CallCreate path, PcDone None), (CallCreate path, PcDone (Some (UnitExists name)))]"
  using assms by (simp add: sys_sym_defs create_properties_valid)

section \<open>Properties\<close>

text \<open>
  C31. Concurrent \<open>Create\<close> calls alone, on a manager whose start jobs succeed:
  two different \<open>Create\<close> threads never both return \<open>nil\<close> for the same unit
  name. The manager accepts one start request per unit, the unit stays loaded,
  and every later request for it is refused.
\<close>

theorem Create_exclusive:
  assumes "sys_step\<^sup>*\<^sup>* (sys_init (map CallCreate paths) []) (ts, b)"
    and "i < length ts" and "j < length ts"
    and "ts ! i = (CallCreate p, PcDone None)" and "ts ! j = (CallCreate p', PcDone None)"
    and "snd (splitName p) = snd (splitName p')"
  shows "i = j"
proof -
  have inv: "create_inv (ts, b)" using create_star_inv [OF assms(1) create_inv_init] .
  show ?thesis
    using create_invD(5) [OF inv assms(2,3), of "snd (splitName p)"] assms(4-6) by simp
qed

theorem Create_exclusive_witness:
  "\<exists>ts b. sys_step\<^sup>*\<^sup>* (sys_init (map CallCreate [''system.slice/web.slice'', ''system.slice/web.slice'']) [])
       (ts, b) \<and> 0 < length ts \<and> ts ! 0 = (CallCreate ''system.slice/web.slice'', PcDone None) \<and>
     snd (splitName ''system.slice/web.slice'') = snd (splitName ''system.slice/web.slice'') \<and> (0::nat) = 0"
proof -
  obtain ts b where r: "sys_run [Thread 0, Thread 0, Manager, Thread 0, Thread 1, Thread 1]
      (sys_init [CallCreate ''system.slice/web.slice'', CallCreate ''system.slice/web.slice''] []) = Some (ts, b)"
    and t: "ts = [(CallCreate ''system.slice/web.slice'', PcDone None),
                  (CallCreate ''system.slice/web.slice'', PcDone (Some (UnitExists ''web.slice'')))]"
    using two_creates_eval by (auto split: option.splits)
  have st: "sys_step\<^sup>*\<^sup>* (sys_init (map CallCreate [''system.slice/web.slice'', ''system.slice/web.slice'']) [])
      (ts, b)" using sys_run_star [OF r] by simp
  have "(0::nat) = 0"
    using Create_exclusive [OF st, of 0 0 "''system.slice/web.slice''" "''system.slice/web.slice''"] t by simp
  then show ?thesis using st t by auto
qed

text \<open>
  C32. The refused \<open>Create\<close>: for every path whose unit name and parent
  slice systemd accepts, of two concurrent \<open>Create\<close> calls for that path a
  schedule exists in which the first returns \<open>nil\<close> and the second returns
  the manager's \<open>UnitExists\<close> error for the unit.
\<close>

theorem Create_twice_unit_exists:
  assumes "splitName path = (slice, name)" and "valid_unit_name name" and "valid_unit_name slice"
  shows "\<exists>S. sys_step\<^sup>*\<^sup>* (sys_init [CallCreate path, CallCreate path] []) S \<and>
       fst S = [(CallCreate path, PcDone None), (CallCreate path, PcDone (Some (UnitExists name)))]"
proof -
  obtain S where r: "sys_run [Thread 0, Thread 0, Manager, Thread 0, Thread 1, Thread 1]
      (sys_init [CallCreate path, CallCreate path] []) = Some S"
    and t: "fst S = [(CallCreate path, PcDone None), (CallCreate path, PcDone (Some (UnitExists name)))]"
    using two_creates_run [OF assms] by (auto split: option.splits)
  show ?thesis using sys_run_star [OF r] t by blast
qed

theorem Create_twice_unit_exists_witness:
  "\<exists>S. sys_step\<^sup>*\<^sup>* (sys_init [CallCreate ''system.slice/web.slice'', CallCreate ''system.slice/web.slice''] []) S \<and>
       fst S = [(CallCreate ''system.slice/web.slice'', PcDone None),
                (CallCreate ''system.slice/web.slice'', PcDone (Some (UnitExists ''web.slice'')))]"
proof -
  have sn: "splitName ''system.slice/web.slice'' = (''system.slice'', ''web.slice'')"
    by (simp add: splitName_def Split_def TrimSuffix_def HasSuffix_def IsPathSeparator_def)
  have v: "valid_unit_name ''web.slice''" "valid_unit_name ''system.slice''"
    by (simp_all add: valid_unit_name_def unit_suffixes_def HasSuffix_def)
  show ?thesis using Create_twice_unit_exists [OF sn v] .
qed

end
