(* ===== verification/SoloRun.thy ===== *)
theory SoloRun
  imports Concurrent
begin

text \<open>
  A \<open>Create\<close> or \<open>Delete\<close> thread run alone, the manager moving only while
  the thread is blocked on \<open><-ch\<close>: the schedule \<open>New\<close>, request, \<open>n\<close>
  manager rounds, receive. Whenever this schedule completes, the thread has
  returned exactly what the sequential method returns, on the same bus; the
  number of rounds is then the length of the queue at the request. A thread run
  alone without manager rounds that returns an error returns the sequential
  method's error. With \<open>Create_thread\<close> and \<open>Delete_thread\<close> this makes the
  sequential methods and the thread model agree on every request.
\<close>

section \<open>The blocking receive as manager rounds\<close>

lemma await_rounds:
  assumes "conns b c = Some l" and "l (job_num jb) = Some None" and "queue b = q @ [jb]"
    and "\<forall>x \<in> set q. job_num x \<noteq> job_num jb"
  shows "await c (job_num jb) b = recv c (job_num jb) ((run_job ^^ Suc (length q)) b) \<and>
         queue ((run_job ^^ Suc (length q)) b) = [] \<and>
         (\<forall>m \<le> length q. recv c (job_num jb) ((run_job ^^ m) b) = None)"
  using assms
proof (induction q arbitrary: b l)
  case Nil
  have none: "recv c (job_num jb) b = None" using Nil.prems(1,2) by (rule recv_waiting)
  have "\<exists>r b'. recv c (job_num jb) (run_job b) = Some (r, b')"
    using Nil.prems by (simp add: run_job_Cons deliver_waiting recv_def)
  then have "await c (job_num jb) (run_job b) = recv c (job_num jb) (run_job b)"
    by (auto simp: await.simps [of c "job_num jb" "run_job b"])
  then show ?case using none Nil.prems(3) by (simp add: await.simps [of c "job_num jb" b])
next
  case (Cons x q)
  have none: "recv c (job_num jb) b = None" using Cons.prems(1,2) by (rule recv_waiting)
  have x: "job_num x \<noteq> job_num jb" using Cons.prems(4) by simp
  obtain l' where l': "conns (run_job b) c = Some l'" "l' (job_num jb) = Some None"
    using Cons.prems(1,2,3) x deliver_other [of "conns b" c l "job_num x" "job_num jb"]
    by (auto simp: run_job_Cons)
  have q: "queue (run_job b) = q @ [jb]" using Cons.prems(3) by simp
  have ih: "await c (job_num jb) (run_job b) = recv c (job_num jb) ((run_job ^^ Suc (length q)) (run_job b)) \<and>
            queue ((run_job ^^ Suc (length q)) (run_job b)) = [] \<and>
            (\<forall>m \<le> length q. recv c (job_num jb) ((run_job ^^ m) (run_job b)) = None)"
    using Cons.IH [OF l' q] Cons.prems(4) by simp
  have shift: "(run_job ^^ m) (run_job b) = (run_job ^^ Suc m) b" for m
    by (simp only: funpow_Suc_right o_apply)
  have "recv c (job_num jb) ((run_job ^^ m) b) = None" if "m \<le> length (x # q)" for m
  proof (cases m)
    case 0
    then show ?thesis using none by simp
  next
    case (Suc m')
    then have "m' \<le> length q" using that by simp
    then have "recv c (job_num jb) ((run_job ^^ m') (run_job b)) = None" using ih by blast
    then show ?thesis unfolding Suc shift .
  qed
  moreover have "await c (job_num jb) b = await c (job_num jb) (run_job b)"
    using none Cons.prems(3) by (simp add: await.simps [of c "job_num jb" b])
  ultimately show ?case using ih shift by simp
qed

section \<open>Manager rounds in a schedule\<close>

lemma sys_run_managers:
  "sys_run (replicate n Manager @ xs) (ts, b) =
     (if n \<le> length (queue b) then sys_run xs (ts, (run_job ^^ n) b) else None)"
proof (induction n arbitrary: b)
  case 0
  then show ?case by simp
next
  case (Suc n)
  show ?case
  proof (cases "queue b")
    case Nil
    then show ?thesis by simp
  next
    case (Cons jb js)
    have "(run_job ^^ n) (run_job b) = (run_job ^^ Suc n) b" by (simp only: funpow_Suc_right o_apply)
    then show ?thesis using Suc.IH [of "run_job b"] Cons by simp
  qed
qed

section \<open>A thread run alone\<close>

lemma solo_request:
  assumes wf: "wf_bus b"
    and run: "sys_run ([Thread 0, Thread 0] @ replicate n Manager @ [Thread 0])
                ([(k, PcStart)], b) = Some S"
  obtains c b1 j b2 x b3 where "dbus_New b = (Inr c, b1)" "call_request k c b1 = (Inr j, b2)"
    "await c j b2 = Some (x, b3)" "S = ([(k, PcDone None)], conn_Close c b3)"
proof -
  have up: "bus_up b"
  proof (rule ccontr)
    assume "\<not> bus_up b"
    then show False using run by (simp add: dbus_New_down)
  qed
  let ?c = "next_conn b"
  define b1 where "b1 = snd (dbus_New b)"
  have new: "dbus_New b = (Inr ?c, b1)" using up by (simp add: b1_def dbus_New_def Let_def)
  have c1: "conns b1 ?c = Some Map.empty" using up by (simp add: b1_def dbus_New_def Let_def)
  have below: "\<forall>x \<in> set (queue b1). job_num x < next_job b1"
    using wf_busD(3) [OF wf] up by (simp add: b1_def dbus_New_def Let_def)
  obtain r b2 where req: "call_request k ?c b1 = (r, b2)" by fastforce
  show ?thesis
  proof (cases r)
    case (Inl e)
    then show ?thesis using run new req by (simp add: sys_run_managers split: if_splits)
  next
    case (Inr j)
    obtain name kind where jq: "j = next_job b1"
        "conns b2 = register ?c j (cancel_jobs name (queue b1) (conns b1))"
        "queue b2 = filter (\<lambda>x. job_unit x \<noteq> name) (queue b1) @ [\<lparr>job_num = j, job_unit = name, job_kind = kind\<rparr>]"
      using call_request_Inr [OF req [unfolded Inr]] by blast
    let ?q = "filter (\<lambda>x. job_unit x \<noteq> name) (queue b1)"
    let ?jb = "\<lparr>job_num = j, job_unit = name, job_kind = kind\<rparr>"
    have c2: "conns b2 ?c = Some (Map.empty(j \<mapsto> None))"
      using jq(2) c1 by (simp add: register_same cancel_jobs_empty_listener)
    have d: "\<forall>x \<in> set ?q. job_num x \<noteq> job_num ?jb" using below jq(1) by auto
    have rounds: "await ?c (job_num ?jb) b2 = recv ?c (job_num ?jb) ((run_job ^^ Suc (length ?q)) b2) \<and>
        (\<forall>m \<le> length ?q. recv ?c (job_num ?jb) ((run_job ^^ m) b2) = None)"
      using await_rounds [OF c2 _ jq(3) d] by simp
    have rest: "sys_run (replicate n Manager @ [Thread 0]) ([(k, PcWait ?c j)], b2) = Some S"
      using run new req Inr by simp
    then have n: "n \<le> Suc (length ?q)"
      and last: "sys_run [Thread 0] ([(k, PcWait ?c j)], (run_job ^^ n) b2) = Some S"
      using jq(3) by (simp_all add: sys_run_managers split: if_splits)
    obtain x b3 where rv: "recv ?c j ((run_job ^^ n) b2) = Some (x, b3)"
        and S: "S = ([(k, PcDone None)], conn_Close ?c b3)"
      using last by (auto split: option.splits)
    have "\<not> n \<le> length ?q"
    proof
      assume "n \<le> length ?q"
      then have "recv ?c j ((run_job ^^ n) b2) = None" using rounds by simp
      then show False using rv by simp
    qed
    then have "n = Suc (length ?q)" using n by simp
    then have aw: "await ?c j b2 = Some (x, b3)" using rounds rv by simp
    show ?thesis using that [OF new req [unfolded Inr] aw S] .
  qed
qed

lemma request_listener:
  assumes new: "dbus_New b = (Inr c, b1)" and req: "call_request k c b1 = (Inr j, b2)"
  shows "conns b2 c = Some (Map.empty(j \<mapsto> None))"
proof -
  have c1: "conns b1 c = Some Map.empty" using new
    by (auto simp: dbus_New_def Let_def split: if_splits)
  obtain name kind where "conns b2 = register c j (cancel_jobs name (queue b1) (conns b1))"
    using call_request_Inr [OF req] by blast
  then show ?thesis using c1 by (simp add: register_same cancel_jobs_empty_listener)
qed

lemma thread_alone_Suc:
  "sys_run (replicate (Suc m) (Thread 0)) ([(k, p)], b) =
     (case client_step k p b of None \<Rightarrow> None | Some (p', b') \<Rightarrow> sys_run (replicate m (Thread 0)) ([(k, p')], b'))"
  by (simp split: option.splits prod.splits)

lemma thread_alone_done:
  "sys_run (replicate m (Thread 0)) ([(k, PcDone e)], b) = (if m = 0 then Some ([(k, PcDone e)], b) else None)"
  by (cases m) (simp_all add: thread_alone_Suc)

lemma thread_alone_wait:
  "recv c j b = None \<Longrightarrow>
   sys_run (replicate m (Thread 0)) ([(k, PcWait c j)], b) = (if m = 0 then Some ([(k, PcWait c j)], b) else None)"
  by (cases m) (simp_all add: thread_alone_Suc)

text \<open>
  Converse of \<open>Create_thread\<close>: when the schedule \<open>New\<close>, request, \<open>n\<close> manager
  rounds, receive completes for a \<open>Create\<close> thread alone on a well-formed bus,
  the thread has returned \<open>nil\<close> and the sequential \<open>Create\<close> returns
  \<open>nil\<close> on exactly the same bus; connection failures and refused requests
  end the thread before the receive, so such a schedule cannot complete for them.
\<close>

lemma Create_solo_schedule:
  assumes wf: "wf_bus b"
    and run: "sys_run ([Thread 0, Thread 0] @ replicate n Manager @ [Thread 0])
                ([(CallCreate path, PcStart)], b) = Some S"
  shows "fst S = [(CallCreate path, PcDone None)] \<and> Create s path resources b = Some (None, snd S)"
proof -
  obtain c b1 j b2 x b3 where new: "dbus_New b = (Inr c, b1)"
      and req: "call_request (CallCreate path) c b1 = (Inr j, b2)"
      and aw: "await c j b2 = Some (x, b3)" and S: "S = ([(CallCreate path, PcDone None)], conn_Close c b3)"
    using solo_request [OF wf run] .
  obtain slice name where sn: "splitName path = (slice, name)" by fastforce
  have "Create s path resources b = Some (None, conn_Close c b3)"
    using new req aw sn by (simp add: Create_def)
  then show ?thesis using S by simp
qed


text \<open>
  The converse refinement for \<open>Delete\<close>: on a well-formed bus, whenever a
  \<open>Delete\<close> thread run alone (\<open>New\<close>, \<open>StopUnit\<close>, \<open>n\<close> manager rounds,
  receive) completes, it has returned \<open>nil\<close> and the sequential \<open>Delete\<close>
  returns \<open>nil\<close> on the same bus, leaving the same bus.
\<close>

lemma Delete_solo_schedule:
  assumes wf: "wf_bus b"
    and run: "sys_run ([Thread 0, Thread 0] @ replicate n Manager @ [Thread 0])
                ([(CallDelete path, PcStart)], b) = Some S"
  shows "fst S = [(CallDelete path, PcDone None)] \<and> Delete s path b = Some (None, snd S)"
proof -
  obtain c b1 j b2 x b3 where new: "dbus_New b = (Inr c, b1)"
      and req: "call_request (CallDelete path) c b1 = (Inr j, b2)"
      and aw: "await c j b2 = Some (x, b3)" and S: "S = ([(CallDelete path, PcDone None)], conn_Close c b3)"
    using solo_request [OF wf run] .
  obtain slice name where sn: "splitName path = (slice, name)" by fastforce
  have "Delete s path b = Some (None, conn_Close c b3)"
    using new req aw sn by (simp add: Delete_def)
  then show ?thesis using S by simp
qed

text \<open>
  Refused requests: when a \<open>Create\<close> or \<open>Delete\<close> thread run alone, with
  no manager round, returns an error (\<open>New\<close> failing, or systemd refusing the
  request), the sequential method returns the same error on the same bus.
\<close>

lemma refused_schedule:
  assumes run: "sys_run (replicate m (Thread 0)) ([(k, PcStart)], b) = Some ([(k, PcDone (Some e))], b')"
  shows "(case k of CallCreate path \<Rightarrow> Create s path resources b | CallDelete path \<Rightarrow> Delete s path b) =
           Some (Some e, b')"
proof (cases "dbus_New b")
  case (Pair r b1)
  show ?thesis
  proof (cases r)
    case (Inl err)
    then show ?thesis using run Pair
      by (cases m) (auto simp: thread_alone_Suc thread_alone_done Create_def Delete_def split: call.splits if_splits)
  next
    case (Inr c)
    obtain r2 b2 where req: "call_request k c b1 = (r2, b2)" by fastforce
    have run1: "sys_run (replicate (m - 1) (Thread 0)) ([(k, PcConn c)], b1) = Some ([(k, PcDone (Some e))], b')"
      using run Pair Inr by (cases m) (simp_all add: thread_alone_Suc)
    show ?thesis
    proof (cases r2)
      case (Inl err)
      then show ?thesis using run1 Pair Inr req
        by (cases "m - 1") (auto simp: thread_alone_Suc thread_alone_done Create_def Delete_def Let_def
            split: call.splits prod.splits if_splits)
    next
      case (Inr j)
      have "recv c j b2 = None"
        using request_listener [OF Pair [unfolded \<open>r = Inr c\<close>] req [unfolded Inr]]
        by (rule recv_waiting) simp
      then show ?thesis using run1 req Inr
        by (cases "m - 1") (simp_all add: thread_alone_Suc thread_alone_wait split: if_splits)
    qed
  qed
qed

end
