(* ===== verification/Spec2Isabelle.thy ===== *)
theory Spec2Isabelle
  imports Concurrent Lifecycle Exclusive SoloRun
begin

text \<open>
  \<^bold>\<open>A verification model of containerd's systemd cgroup controller.\<close>

  The program is \<open>src/vendor/github.com/containerd/cgroups/systemd.go\<close>. It maps a
  cgroup path to a systemd unit and lets systemd create and remove the cgroup: a
  caller asks \<open>SystemdController.Create(path, resources)\<close>, which opens a D-Bus
  connection (\<open>systemdDbus.New\<close>), splits the path into a parent slice and a unit
  name (\<open>splitName\<close>), builds the transient-unit property list (description,
  \<open>Wants\<close> of the parent, \<open>DefaultDependencies=false\<close>, \<open>Delegate=true\<close>,
  memory/CPU/block-I/O accounting on), calls \<open>StartTransientUnit(name, "replace",
  properties, ch)\<close>, blocks on \<open><-ch\<close> for the single completion value, and closes
  the connection on return (\<open>defer conn.Close()\<close>). \<open>Delete(path)\<close> does the same
  with \<open>StopUnit(name, "replace", ch)\<close>. \<open>Slice(slice, name)\<close> builds the path
  generator \<open>slice/name.slice\<close> (default slice \<open>system.slice\<close>), and
  \<open>Systemd()\<close> returns the subsystem list with this controller first.

  \<^bold>\<open>Theories.\<close>
  \<^item> \<open>Prelude\<close>: the \<open>error\<close> datatype (Go's error values), type names, the
    \<open>bus_defs\<close> collection, list lemmas.
  \<^item> \<open>GoPath\<close>: the Go library functions the source calls, on Unix:
    \<open>strings.HasSuffix\<close>, \<open>strings.TrimSuffix\<close>, \<open>strings.Join\<close>,
    \<open>filepath.Split\<close> (its backward scan, \<open>split_scan\<close>), \<open>filepath.Clean\<close> (its
    single pass \<open>clean_loop\<close> with the output buffer and the backtracking limit
    \<open>dotdot\<close>, and \<open>backtrack\<close>) and \<open>filepath.Join\<close>. Lemmas: \<open>Split\<close> returns
    the unique decomposition at the last separator (\<open>Split_append\<close>,
    \<open>Split_spec\<close>).
  \<^item> \<open>CleanSpec\<close>: an element-stack specification \<open>clean_spec\<close> of
    \<open>filepath.Clean\<close> (\<open>path_elems\<close>, \<open>norm_step\<close>, \<open>render\<close>) and the
    simulation \<open>clean_loop_refines\<close> of the Go loop against it, under the
    invariant \<open>stack_ok\<close> and the abstraction \<open>out = render st\<close>,
    \<open>dotdot = dd_of st\<close>; consequences: \<open>Clean = clean_spec\<close>, idempotence,
    appending a plain element.
  \<^item> \<open>Naming\<close>: \<open>SystemdDbus\<close>, \<open>defaultSlice\<close>, \<open>unitName\<close>, \<open>splitName\<close> and
    \<open>Slice\<close> (lines 14--16, 36--43, 108--115); properties of the split, of the
    unit-name suffix, of the paths \<open>Slice\<close> generates and their round trip
    through \<open>splitName\<close>.
  \<^item> \<open>Bus\<close>: the control channel, not in the repository's sources and modelled
    from the spec's interface: go-systemd's connection (\<open>dbus_New\<close>,
    \<open>StartTransientUnit\<close>, \<open>StopUnit\<close>, \<open>conn_Close\<close>, a job listener per
    submitted job) and the systemd manager (loaded units, a FIFO job queue,
    \<open>replace\<close>/\<open>fail\<close> job modes, the checks of \<open>StartTransientUnit\<close> in
    systemd's order (job mode, unit name, unit already loaded, properties), D-Bus
    signature typing of properties (\<open>variant_has_sig\<close>, \<open>unit_property_sig\<close>), \<open>run_job\<close>
    delivering one result per job). The state is the record \<open>bus\<close>; its field \<open>calls\<close> logs
    what the clients did. \<open>await\<close> is the blocking \<open><-ch\<close>: the manager runs
    queued jobs until the awaited value is delivered; it is \<open>None\<close> exactly when
    the Go receive would block forever.
  \<^item> \<open>BusInvariant\<close>: the bus invariant \<open>wf_bus\<close>, preserved by every
    operation (\<open>bus_step\<close> over the datatype \<open>bus_op\<close>), hence true in every
    \<open>reachable\<close> state (rule induction), where every waiting channel is answered;
    only \<open>New\<close> opens and only \<open>Close\<close> closes a connection.
  \<^item> \<open>Controller\<close>: the struct \<open>SystemdController\<close> (a record; the mutex is a
    field that no method takes), \<open>NewSystemd\<close>, \<open>Name\<close>, \<open>newProperty\<close>,
    \<open>create_properties\<close> (lines 67--75), \<open>Create\<close>, \<open>Delete\<close> and \<open>Systemd()\<close>
    (lines 19--34, with \<open>v1MountPoint()\<close> and \<open>defaults\<close> as parameters). Each
    method returns \<open>None\<close> if it would block forever, otherwise its error
    (\<open>None\<close> for \<open>nil\<close>) and the new bus.
  \<^item> \<open>Concurrent\<close>: concurrent calls. Each \<open>Create\<close>/\<open>Delete\<close> call is a
    thread whose statements \<open>client_step\<close> runs one at a time (program counter
    \<open>pc\<close>: before \<open>New\<close>, connected, blocked on \<open><-ch\<close>, returned;
    \<open>call_request\<close> is the request of lines 66--77 and 91--93); the manager
    runs jobs in steps of its own; \<open>sys_step\<close> interleaves them. The scheduler
    \<open>sched_step\<close>/\<open>sys_run\<close> evaluates a given interleaving; \<open>live_conns\<close>
    are the connections of threads that have connected and not returned.
  \<^item> \<open>Lifecycle\<close>: \<open>Create\<close> followed by \<open>Delete\<close> of the same path, and
    paths with an empty last element.
  \<^item> \<open>SoloRun\<close>: a \<open>Create\<close> or \<open>Delete\<close> thread run alone with the
    manager moving only while it waits; \<open>await_rounds\<close> shows the blocking
    receive is exactly the manager rounds up to the awaited job, and
    \<open>solo_request\<close> decomposes any completed solo schedule into the sequential
    method's statements.
  \<^item> \<open>Exclusive\<close>: concurrent \<open>Create\<close> calls alone; the invariant
    \<open>create_inv\<close> (loaded units stay loaded, at most one accepted thread per
    unit name) over every run.

  \<^bold>\<open>What is proved.\<close> For \<open>Create\<close> and \<open>Delete\<close>, every branch: connection
  failure (error, no request, bus unchanged), rejection by the manager (its error,
  after exactly connect, one request, close), acceptance (success after exactly
  connect, one request, one received completion value, close); both always return
  (the receive is always answered, so no fuel is needed: \<open>await\<close> terminates by
  the length of the queue, and the awaited job is in it); neither leaks a
  connection (the open connections after the call are those before it, on every
  branch). On a well-formed bus an accepted \<open>Create\<close> leaves the unit active
  with the property list it built, and when the start job fails \<open>Create\<close> still
  reports success (the JobFailure gap of the spec); \<open>Create\<close> then \<open>Delete\<close>
  removes the unit again; a path ending in a separator is refused with an empty
  unit name. For naming: \<open>splitName\<close> on \<open>parent/name\<close> and on paths without a
  separator, its general characterisation, the \<open>.slice\<close> round trip of
  \<open>unitName\<close>; \<open>Slice\<close> refines the lexical normal form of
  \<open>parent/name.slice\<close>, never fails, returns a clean path, uses
  \<open>system.slice\<close> for an empty parent, and \<open>splitName\<close> inverts it for clean
  parents. For \<open>Systemd()\<close>: the systemd controller comes first, and errors are
  returned in the order of the calls. For concurrent calls, over every
  interleaving of threads and manager: the open connections are exactly those of
  the threads that have connected and not returned; a blocked thread's channel
  stays registered (the invariant \<open>sys_inv\<close>: bus well formed, connections of
  live threads open and distinct); every run has at most \<open>6 n\<close> steps for
  \<open>n\<close> calls (measure \<open>sys_measure\<close>: the remaining statements weighted 3, 2,
  1 plus the queue length) and ends only when every call has returned, and from
  every reachable state all calls can return. For every path whose unit name and
  parent slice systemd accepts: a concurrent \<open>Delete\<close> can cancel a
  \<open>Create\<close>'s start job, which \<open>Create\<close> answers with \<open>nil\<close> while its unit
  is inactive; a second \<open>Delete\<close> can cancel a first one's stop job, which then
  returns \<open>nil\<close> while its unit is still loaded; of two \<open>Create\<close> calls one
  can get \<open>UnitExists\<close>. With \<open>Create\<close> calls alone and start jobs that
  succeed, at most one \<open>Create\<close> per unit returns \<open>nil\<close>. Supporting lemmas,
  not properties of their own: every bus operation keeps \<open>wf_bus\<close>; every
  property \<open>Create\<close> sends has the D-Bus signature systemd expects; the
  sequential methods and the thread model agree (\<open>Create_thread\<close>,
  \<open>Delete_thread\<close>, and in \<open>SoloRun\<close> the converse for solo schedules and
  refused requests); the step relation and the scheduler have the same runs.

  \<^bold>\<open>Not modelled.\<close> Mount-point discovery and the filesystem subsystems (outside
  src/, parameters here); the contents of \<open>specs.LinuxResources\<close> (a type
  parameter, never read by \<open>Create\<close>); D-Bus transport failures after connecting;
  systemd's own unit semantics beyond loading, activating and unloading; the
  mutex \<open>mu\<close>, which no method of the file takes.

  The remaining parts of the file are either outside \<open>src/\<close> (the mount
  discovery behind \<open>Systemd()\<close>, so that component is partly modelled, with the
  discovery as parameters) or belong to go-systemd and systemd themselves,
  whose only observable contract here is the job protocol \<open>Bus\<close> models from
  the spec (so the control channel is partly modelled).
\<close>

end
